theory Spec2Isabelle
  imports Complex_Main "HOL-Library.Word" "HOL-Library.AList"
begin

unbundle bit_operations_syntax

section \<open>JavaScript strings\<close>

text \<open>
  A JavaScript string is a sequence of UTF-16 code units; \<open>charCodeAt\<close> reads one of them.
  The rupee sign, the dash variants and the em dash of the sync job lie outside ASCII, so a
  string is a list of code units here, and \<open>js\<close> embeds an ASCII literal.
\<close>

type_synonym jsstring = "nat list"

definition js :: "string \<Rightarrow> jsstring" where
  "js s = map of_char s"

definition is_digit :: "nat \<Rightarrow> bool" where
  \<comment> \<open>the regular expression class \<open>\d\<close>\<close>
  "is_digit c = (48 \<le> c \<and> c \<le> 57)"

definition is_space :: "nat \<Rightarrow> bool" where
  \<comment> \<open>the class \<open>\s\<close>, which is also what \<open>trim\<close> strips: white space and line terminators\<close>
  "is_space c =
     (c = 9 \<or> c = 10 \<or> c = 11 \<or> c = 12 \<or> c = 13 \<or> c = 32 \<or> c = 0xA0 \<or> c = 0x1680 \<or>
      (0x2000 \<le> c \<and> c \<le> 0x200A) \<or> c = 0x2028 \<or> c = 0x2029 \<or> c = 0x202F \<or>
      c = 0x205F \<or> c = 0x3000 \<or> c = 0xFEFF)"

definition lower_unit :: "nat \<Rightarrow> jsstring" where
  \<comment> \<open>\<open>toLowerCase\<close> on one code unit. The ASCII capitals, and the two code units outside
      ASCII whose lower case holds an ASCII letter (the Kelvin sign and the dotted capital I),
      are mapped as the Unicode tables say. Every other code unit is kept: a letter outside
      ASCII has a lower case outside ASCII, and no pattern of this program tells the two apart.\<close>
  "lower_unit c =
     (if 65 \<le> c \<and> c \<le> 90 then [c + 32]
      else if c = 0x212A then [107]
      else if c = 0x130 then [105, 0x307]
      else [c])"

definition toLowerCase :: "jsstring \<Rightarrow> jsstring" where
  "toLowerCase s = concat (map lower_unit s)"

definition trim :: "jsstring \<Rightarrow> jsstring" where
  "trim s = rev (dropWhile is_space (rev (dropWhile is_space s)))"

definition starts_with :: "jsstring \<Rightarrow> jsstring \<Rightarrow> bool" where
  "starts_with s p = (take (length p) s = p)"

fun includes_str :: "jsstring \<Rightarrow> jsstring \<Rightarrow> bool" where
  "includes_str [] p = (p = [])"
| "includes_str (c # s) p = (starts_with (c # s) p \<or> includes_str s p)"

section \<open>Budget parser\<close>

text \<open>
  \<^verbatim>\<open>/(\d{1,3}(?:[,\s]\d{2,3})+|\d+(?:\.\d+)?)\s*(k|m|l|lac|lakh|lakhs|cr|crore)?/g\<close>

  The matcher below follows the backtracking order of the expression. Everything after the
  first group can match the empty string, so the first way of matching the first group that
  succeeds is the one the engine keeps.
\<close>

definition has_digits :: "nat \<Rightarrow> jsstring \<Rightarrow> bool" where
  "has_digits k s = (k \<le> length s \<and> list_all is_digit (take k s))"

definition group_sep :: "nat \<Rightarrow> bool" where
  \<comment> \<open>\<open>[,\s]\<close>\<close>
  "group_sep c = (c = 44 \<or> is_space c)"

definition digit_group :: "jsstring \<Rightarrow> (jsstring \<times> jsstring) option" where
  \<comment> \<open>one round of \<open>[,\s]\d{2,3}\<close>, greedy: three digits before two\<close>
  "digit_group s =
     (case s of
        [] \<Rightarrow> None
      | c # r \<Rightarrow>
          if \<not> group_sep c then None
          else if has_digits 3 r then Some (c # take 3 r, drop 3 r)
          else if has_digits 2 r then Some (c # take 2 r, drop 2 r)
          else None)"

lemma digit_group_shorter: "digit_group s = Some (g, r) \<Longrightarrow> length r < length s"
  by (auto simp: digit_group_def split: list.splits if_splits)

function digit_groups :: "jsstring \<Rightarrow> jsstring \<times> jsstring" where
  "digit_groups s =
     (case digit_group s of
        None \<Rightarrow> ([], s)
      | Some (g, r) \<Rightarrow> (let (gs, r') = digit_groups r in (g @ gs, r')))"
  by pat_completeness auto
termination
  by (relation "measure length") (auto dest: digit_group_shorter)

declare digit_groups.simps [simp del]

definition grouped_number :: "jsstring \<Rightarrow> (jsstring \<times> jsstring) option" where
  \<comment> \<open>\<open>\d{1,3}(?:[,\s]\d{2,3})+\<close>: three leading digits are tried first, then two, then one\<close>
  "grouped_number s =
     (case List.find (\<lambda>k. has_digits k s \<and> digit_group (drop k s) \<noteq> None) [3, 2, 1] of
        None \<Rightarrow> None
      | Some k \<Rightarrow> (let (gs, r) = digit_groups (drop k s) in Some (take k s @ gs, r)))"

definition plain_number :: "jsstring \<Rightarrow> (jsstring \<times> jsstring) option" where
  \<comment> \<open>\<open>\d+(?:\.\d+)?\<close>\<close>
  "plain_number s =
     (let ds = takeWhile is_digit s; r = dropWhile is_digit s in
      if ds = [] then None
      else (case r of
              [] \<Rightarrow> Some (ds, r)
            | c # r' \<Rightarrow>
                if c = 46 \<and> takeWhile is_digit r' \<noteq> []
                then Some (ds @ c # takeWhile is_digit r', dropWhile is_digit r')
                else Some (ds, r)))"

definition suffixes :: "jsstring list" where
  "suffixes = map js [''k'', ''m'', ''l'', ''lac'', ''lakh'', ''lakhs'', ''cr'', ''crore'']"

definition match_at :: "jsstring \<Rightarrow> ((jsstring \<times> jsstring) \<times> jsstring) option" where
  \<comment> \<open>one attempt of the whole expression at the head of \<open>s\<close>: the two capture groups and
      the text after the match\<close>
  "match_at s =
     (case (case grouped_number s of Some m \<Rightarrow> Some m | None \<Rightarrow> plain_number s) of
        None \<Rightarrow> None
      | Some (numStr, r) \<Rightarrow>
          (let r1 = dropWhile is_space r in
           case List.find (starts_with r1) suffixes of
             None \<Rightarrow> Some ((numStr, []), r1)
           | Some suffix \<Rightarrow> Some ((numStr, suffix), drop (length suffix) r1)))"

lemma digit_groups_shorter: "digit_groups s = (gs, r) \<Longrightarrow> length r \<le> length s"
proof (induction s arbitrary: gs r rule: digit_groups.induct)
  case (1 s)
  show ?case
  proof (cases "digit_group s")
    case None
    with "1.prems" show ?thesis by (simp add: digit_groups.simps)
  next
    case (Some p)
    obtain g r0 where p: "p = (g, r0)" by (cases p)
    obtain gs' r' where rec: "digit_groups r0 = (gs', r')" by (cases "digit_groups r0")
    from "1.prems" Some p rec have "r = r'" by (simp add: digit_groups.simps)
    moreover from "1.IH" Some p rec have "length r' \<le> length r0" by simp
    moreover from Some p have "length r0 < length s" by (simp add: digit_group_shorter)
    ultimately show ?thesis by simp
  qed
qed

lemma grouped_number_shorter: "grouped_number s = Some (n, r) \<Longrightarrow> length r < length s"
proof -
  assume a: "grouped_number s = Some (n, r)"
  then obtain k where k: "List.find (\<lambda>k. has_digits k s \<and> digit_group (drop k s) \<noteq> None) [3, 2, 1] = Some k"
    by (auto simp: grouped_number_def split: option.splits)
  then have k0: "0 < k" "k \<le> length s"
    by (auto simp: has_digits_def split: if_splits)
  obtain gs r' where g: "digit_groups (drop k s) = (gs, r')" by (cases "digit_groups (drop k s)")
  with a k have "r = r'" by (simp add: grouped_number_def)
  with digit_groups_shorter [OF g] k0 show ?thesis by simp
qed

lemma plain_number_shorter:
  assumes "plain_number s = Some (n, r)"
  shows "length r < length s"
proof -
  from assms have ne: "takeWhile is_digit s \<noteq> []"
    by (auto simp: plain_number_def Let_def split: if_splits)
  have "length (takeWhile is_digit s) + length (dropWhile is_digit s) = length s"
    by (metis length_append takeWhile_dropWhile_id)
  with ne have lt: "length (dropWhile is_digit s) < length s"
    by (cases "takeWhile is_digit s") auto
  from assms have "r = dropWhile is_digit s \<or>
      (\<exists>c r'. dropWhile is_digit s = c # r' \<and> r = dropWhile is_digit r')"
    by (auto simp: plain_number_def Let_def split: if_splits list.splits)
  then have "length r \<le> length (dropWhile is_digit s)"
  proof
    assume "r = dropWhile is_digit s"
    then show ?thesis by simp
  next
    assume "\<exists>c r'. dropWhile is_digit s = c # r' \<and> r = dropWhile is_digit r'"
    then obtain c r' where d: "dropWhile is_digit s = c # r'" and r: "r = dropWhile is_digit r'"
      by blast
    have "length (dropWhile is_digit r') \<le> length r'"
      by (rule length_dropWhile_le)
    with d r show ?thesis by simp
  qed
  with lt show ?thesis by simp
qed

lemma match_at_shorter: "match_at s = Some (m, r) \<Longrightarrow> length r < length s"
proof -
  assume a: "match_at s = Some (m, r)"
  then obtain n r0 where n: "(case grouped_number s of Some m \<Rightarrow> Some m | None \<Rightarrow> plain_number s) = Some (n, r0)"
    by (auto simp: match_at_def split: option.splits)
  then have "length r0 < length s"
    by (auto split: option.splits dest: grouped_number_shorter plain_number_shorter)
  moreover have "length (dropWhile is_space r0) \<le> length r0"
    by (rule length_dropWhile_le)
  moreover from a n have "length r \<le> length (dropWhile is_space r0)"
    by (auto simp: match_at_def Let_def split: option.splits)
  ultimately show ?thesis by simp
qed

function matches :: "jsstring \<Rightarrow> (jsstring \<times> jsstring) list" where
  \<comment> \<open>the \<open>while ((m = re.exec(s)) !== null)\<close> loop: the engine tries the expression at
      \<open>lastIndex\<close>, moves one code unit on when it fails there, and leaves \<open>lastIndex\<close>
      behind each match\<close>
  "matches [] = []"
| "matches (c # s) =
     (case match_at (c # s) of
        None \<Rightarrow> matches s
      | Some (m, r) \<Rightarrow> m # matches r)"
  by pat_completeness auto
termination
  by (relation "measure length") (auto dest: match_at_shorter)

declare matches.simps [simp del]

definition digit_value :: "jsstring \<Rightarrow> nat" where
  "digit_value ds = foldl (\<lambda>a c. 10 * a + (c - 48)) 0 ds"

definition parseFloat :: "jsstring \<Rightarrow> rat option" where
  \<comment> \<open>\<open>parseFloat\<close> on the texts the first capture group can hold, digits with an optional
      fraction; \<open>None\<close> is NaN. The value is the exact decimal: the rounding of a number to
      the nearest IEEE double (and so also an infinite result) is not modelled.\<close>
  "parseFloat s =
     (let ip = takeWhile is_digit s; r = dropWhile is_digit s in
      if ip = [] then None
      else (case r of
              [] \<Rightarrow> Some (of_nat (digit_value ip))
            | c # r' \<Rightarrow>
                (let fp = takeWhile is_digit r' in
                 if c = 46 then Some (of_nat (digit_value ip) + of_nat (digit_value fp) / 10 ^ length fp)
                 else Some (of_nat (digit_value ip)))))"

definition Math_round :: "rat \<Rightarrow> int" where
  \<comment> \<open>\<open>Math.round\<close>: the nearest integer, a half goes up\<close>
  "Math_round x = \<lfloor>x + 1 / 2\<rfloor>"

definition multiplier :: "jsstring \<Rightarrow> rat" where
  "multiplier suf =
     (if suf = js ''k'' then 1000
      else if suf = js ''m'' then 1000000
      else if suf = js ''l'' \<or> suf = js ''lac'' \<or> suf = js ''lakh'' \<or> suf = js ''lakhs'' then 100000
      else if suf = js ''cr'' \<or> suf = js ''crore'' then 10000000
      else 1)"

definition match_value :: "jsstring \<times> jsstring \<Rightarrow> int option" where
  \<comment> \<open>the body of the loop for one match; \<open>None\<close> is the \<open>continue\<close> of a value that is
      not finite\<close>
  "match_value m =
     (case parseFloat (filter (\<lambda>c. \<not> group_sep c) (fst m)) of
        None \<Rightarrow> None
      | Some val \<Rightarrow> Some (Math_round (val * multiplier (snd m))))"

definition normalize_dashes :: "jsstring \<Rightarrow> jsstring" where
  \<comment> \<open>\<open>s.replace(/[\<dots>]/g, "-")\<close> for the en dash, the em dash and the minus sign\<close>
  "normalize_dashes s = map (\<lambda>c. if c = 0x2013 \<or> c = 0x2014 \<or> c = 0x2212 then 45 else c) s"

definition budget_values :: "jsstring \<Rightarrow> int list" where
  \<comment> \<open>the array \<open>values\<close> when the loop has ended\<close>
  "budget_values b = List.map_filter match_value (matches (normalize_dashes (trim (toLowerCase b))))"

fun Math_max :: "int list \<Rightarrow> int" where
  \<comment> \<open>\<open>Math.max(...values)\<close>; the caller has excluded the empty array\<close>
  "Math_max [] = 0"
| "Math_max [v] = v"
| "Math_max (v # vs) = max v (Math_max vs)"

definition parseBudgetToNumber :: "jsstring option \<Rightarrow> int" where
  "parseBudgetToNumber budget =
     (case budget of
        None \<Rightarrow> 0
      | Some b \<Rightarrow>
          if b = [] then 0
          else if budget_values b = [] then 0
          else Math_max (budget_values b))"

section \<open>Timeline classifier\<close>

type_synonym instant = int

definition addDays :: "instant \<Rightarrow> int \<Rightarrow> instant" where
  \<comment> \<open>The clock is a parameter: \<open>now\<close> is what \<open>new Date()\<close> reads, in milliseconds since the
      epoch. \<open>setDate\<close> moves the calendar day in the local zone of the runtime, which is UTC for
      an edge function, so a day is 86400000 ms. \<open>toISOString\<close> renders the instant; the
      instant itself stands for the rendered text.\<close>
  "addDays now days = now + days * 86400000"

definition mapTimelineToDueDate :: "instant \<Rightarrow> jsstring option \<Rightarrow> instant option" where
  "mapTimelineToDueDate now timeline =
     (case timeline of
        None \<Rightarrow> None
      | Some txt \<Rightarrow>
          if txt = [] then None
          else (let t = toLowerCase txt in
                if includes_str t (js ''urgent'') \<or> includes_str t (js ''1-3'') then Some (addDays now 3)
                else if includes_str t (js ''week'') \<or> includes_str t (js ''3-7'') then Some (addDays now 7)
                else if includes_str t (js ''month'') \<or> includes_str t (js ''1-4'') then Some (addDays now 28)
                else None))"

section \<open>Row identity\<close>

definition digit_char :: "nat \<Rightarrow> nat" where
  \<comment> \<open>the digits of \<open>Number.prototype.toString(radix)\<close>: 0-9, then a-z\<close>
  "digit_char d = (if d < 10 then 48 + d else 87 + d)"

function toString_radix :: "nat \<Rightarrow> nat \<Rightarrow> jsstring" where
  "toString_radix radix n =
     (if radix < 2 \<or> n < radix then [digit_char n]
      else toString_radix radix (n div radix) @ [digit_char (n mod radix)])"
  by pat_completeness auto
termination
  by (relation "measure snd") auto

declare toString_radix.simps [simp del]

definition djb2_step :: "32 word \<Rightarrow> nat \<Rightarrow> 32 word" where
  \<comment> \<open>\<open>hash = ((hash << 5) + hash) + input.charCodeAt(i); hash |= 0\<close>: the sum is exact in a
      double and \<open>|= 0\<close> reduces it modulo \<open>2 ^ 32\<close>, which is the word sum\<close>
  "djb2_step hash c = (push_bit 5 hash + hash) + of_nat c"

definition djb2Hash :: "jsstring \<Rightarrow> jsstring" where
  \<comment> \<open>\<open>(hash >>> 0).toString(36)\<close> reads the 32 bits as unsigned\<close>
  "djb2Hash input = toString_radix 36 (unat (foldl djb2_step 5381 input))"

section \<open>Feed rows and the field normalizer\<close>

text \<open>
  A cell value enters the model as the text \<open>String(value)\<close> gives for it, and \<open>null\<close> or
  \<open>undefined\<close> as \<open>None\<close>. A row of the array variant is an object keyed by header; a key
  that holds \<open>null\<close> reads as a missing key, so it is left out of the association list.
\<close>

type_synonym sheet_row = "(jsstring \<times> jsstring) list"

record gviz_cell =
  cell_v :: "jsstring option"
  cell_f :: "jsstring option"

record gviz_col =
  col_id :: jsstring
  label :: jsstring
  col_type :: jsstring

record gviz_row =
  cells :: "gviz_cell option list"

record GvizTable =
  cols :: "gviz_col list"
  rows :: "gviz_row list"

datatype raw_row = SheetRow sheet_row | GvizRow gviz_row

record sheet_record =
  rec_client_name :: jsstring
  rec_requirement_text :: jsstring
  rec_price :: int
  rec_due_date :: "instant option"
  rec_status :: jsstring
  rec_source :: jsstring
  rec_sheet_row_id :: jsstring
  rec_raw_sheet_json :: raw_row

definition or_else :: "'a option \<Rightarrow> 'a option \<Rightarrow> 'a option" where
  \<comment> \<open>the operator \<open>??\<close> between two values that may be null\<close>
  "or_else a b = (case a of Some x \<Rightarrow> Some x | None \<Rightarrow> b)"

definition String_or_empty :: "jsstring option \<Rightarrow> jsstring" where
  \<comment> \<open>\<open>String(x ?? "").trim()\<close>\<close>
  "String_or_empty x = trim (case x of Some s \<Rightarrow> s | None \<Rightarrow> [])"

definition join_dash :: "jsstring list \<Rightarrow> jsstring" where
  \<comment> \<open>\<open>[service, desc].filter(Boolean).join(" \<dots> ")\<close> with an em dash between two spaces\<close>
  "join_dash parts =
     (case filter (\<lambda>s. s \<noteq> []) parts of
        [] \<Rightarrow> []
      | x # xs \<Rightarrow> foldl (\<lambda>acc s. acc @ [32, 0x2014, 32] @ s) x xs)"

definition fingerprint :: "jsstring \<Rightarrow> jsstring \<Rightarrow> jsstring \<Rightarrow> jsstring \<Rightarrow> jsstring \<Rightarrow> jsstring" where
  "fingerprint fullName service desc budgetRaw timeline =
     fullName @ js ''|'' @ service @ js ''|'' @ desc @ js ''|'' @ budgetRaw @ js ''|'' @ timeline"

definition compute_sheet_row_id :: "jsstring \<Rightarrow> jsstring \<Rightarrow> jsstring \<Rightarrow> jsstring \<Rightarrow> jsstring \<Rightarrow> jsstring \<Rightarrow> jsstring" where
  \<comment> \<open>\<open>const sheet_row_id = timestamp || djb2Hash(fingerprint)\<close>\<close>
  "compute_sheet_row_id timestamp fullName service desc budgetRaw timeline =
     (if timestamp \<noteq> [] then timestamp
      else djb2Hash (fingerprint fullName service desc budgetRaw timeline))"

definition to_record ::
  "instant \<Rightarrow> raw_row \<Rightarrow> jsstring \<Rightarrow> jsstring \<Rightarrow> jsstring \<Rightarrow> jsstring \<Rightarrow> jsstring \<Rightarrow> jsstring \<Rightarrow>
   sheet_record option" where
  \<comment> \<open>what both branches of the handler do with the six texts of a row; \<open>None\<close> is the
      \<open>null\<close> of a blank row, which \<open>filter(Boolean)\<close> drops\<close>
  "to_record now row name service desc budgetRaw timeline timestamp =
     (let fullName = (if name = [] then js ''Client'' else name) in
      if service = [] \<and> desc = [] then None
      else Some \<lparr>rec_client_name = fullName,
                 rec_requirement_text = join_dash [service, desc],
                 rec_price = parseBudgetToNumber (Some budgetRaw),
                 rec_due_date = mapTimelineToDueDate now (Some timeline),
                 rec_status = js ''available'',
                 rec_source = js ''google_sheet'',
                 rec_sheet_row_id = compute_sheet_row_id timestamp fullName service desc budgetRaw timeline,
                 rec_raw_sheet_json = row\<rparr>)"

definition L_service :: jsstring where "L_service = js ''What type of service you want ?''"
definition L_desc :: jsstring where "L_desc = js ''Could you briefly describe your project or needs?''"
definition L_budget :: jsstring where "L_budget = js ''What is your estimated budget for this project?''"
definition L_timeline :: jsstring where "L_timeline = js ''What is your preferred timeline for project completion?''"
definition L_name :: jsstring where "L_name = js ''What is your full name?''"
definition L_timestamp :: jsstring where "L_timestamp = js ''Timestamp''"

definition opensheet_record :: "instant \<Rightarrow> sheet_row \<Rightarrow> sheet_record option" where
  "opensheet_record now row =
     (let get = map_of row in
      to_record now (SheetRow row)
        (String_or_empty (or_else (get L_name) (get (js ''Full Name''))))
        (String_or_empty (or_else (get L_service) (get (js ''Service''))))
        (String_or_empty (or_else (get L_desc) (get (js ''Description''))))
        (String_or_empty (or_else (get L_budget) (get (js ''Budget''))))
        (String_or_empty (or_else (get L_timeline) (get (js ''Timeline''))))
        (String_or_empty (or_else (get L_timestamp) (get (js ''timestamp'')))))"

definition colIndex :: "gviz_col list \<Rightarrow> jsstring \<Rightarrow> nat option" where
  \<comment> \<open>\<open>cols.forEach((c, idx) => (colIndex[c.label] = idx))\<close>: a later column of the same
      label overwrites an earlier one\<close>
  "colIndex cs = map_of (rev (zip (map label cs) [0 ..< length cs]))"

definition gviz_get :: "(jsstring \<Rightarrow> nat option) \<Rightarrow> gviz_row \<Rightarrow> jsstring \<Rightarrow> jsstring option" where
  \<comment> \<open>\<open>row.c[colIndex[label]]?.f ?? row.c[colIndex[label]]?.v ?? null\<close>; \<open>cells\<close> is the array
      \<open>row.c\<close>, and a read past its end is \<open>undefined\<close>\<close>
  "gviz_get ci row lbl =
     (case ci lbl of
        None \<Rightarrow> None
      | Some i \<Rightarrow>
          if i < length (cells row)
          then (case cells row ! i of None \<Rightarrow> None | Some cell \<Rightarrow> or_else (cell_f cell) (cell_v cell))
          else None)"

definition gviz_record :: "instant \<Rightarrow> (jsstring \<Rightarrow> nat option) \<Rightarrow> gviz_row \<Rightarrow> sheet_record option" where
  "gviz_record now ci row =
     (let get = gviz_get ci row in
      to_record now (GvizRow row)
        (String_or_empty (get L_name))
        (String_or_empty (get L_service))
        (String_or_empty (get L_desc))
        (String_or_empty (get L_budget))
        (String_or_empty (get L_timeline))
        (String_or_empty (get L_timestamp)))"

definition required :: "jsstring list" where
  "required = [L_service, L_desc, L_budget, L_timeline, L_name, L_timestamp]"

section \<open>Feed parser\<close>

fun indexOf :: "jsstring \<Rightarrow> jsstring \<Rightarrow> nat option" where
  \<comment> \<open>\<open>None\<close> is the \<open>-1\<close> of a text that does not occur\<close>
  "indexOf [] p = (if p = [] then Some 0 else None)"
| "indexOf (x # s) p = (if starts_with (x # s) p then Some 0 else map_option Suc (indexOf s p))"

fun lastIndexOf :: "jsstring \<Rightarrow> jsstring \<Rightarrow> nat option" where
  "lastIndexOf [] p = (if p = [] then Some 0 else None)"
| "lastIndexOf (x # s) p =
     (case lastIndexOf s p of
        Some i \<Rightarrow> Some (Suc i)
      | None \<Rightarrow> if starts_with (x # s) p then Some 0 else None)"

definition substring :: "jsstring \<Rightarrow> nat \<Rightarrow> nat \<Rightarrow> jsstring" where
  \<comment> \<open>\<open>substring\<close> swaps its bounds when the first is the larger, and stops at the end\<close>
  "substring s a b = take (max a b - min a b) (drop (min a b) s)"

datatype json = JTable GvizTable | JArray "sheet_row list" | JOther

datatype error =
    SheetFetchFailed nat
  | NotAnArray
  | InvalidGvizJsonp
  | JsonSyntaxError
  | TypeError
  | MissingColumn jsstring

definition parseGvizJsonp :: "(jsstring \<Rightarrow> json option) \<Rightarrow> jsstring \<Rightarrow> error + json" where
  \<comment> \<open>\<open>JSON.parse\<close> is a parameter: \<open>None\<close> where it throws its syntax error, and otherwise
      the decoded value by shape, a table object, an array of row objects or anything else\<close>
  "parseGvizJsonp JSON_parse input =
     (case indexOf input (js ''setResponse('') of
        None \<Rightarrow> Inl InvalidGvizJsonp
      | Some start \<Rightarrow>
          (case lastIndexOf input (js '')'') of
             None \<Rightarrow> Inl InvalidGvizJsonp
           | Some fin \<Rightarrow>
               (case JSON_parse (substring input (start + length (js ''setResponse('')) fin) of
                  None \<Rightarrow> Inl JsonSyntaxError
                | Some j \<Rightarrow> Inr j)))"

definition read_opensheet ::
  "instant \<Rightarrow> (jsstring \<Rightarrow> json option) \<Rightarrow> jsstring \<Rightarrow> error + sheet_record list \<times> nat" where
  \<comment> \<open>the array branch: the records to reconcile and \<open>rowsLength\<close>\<close>
  "read_opensheet now JSON_parse text =
     (case JSON_parse text of
        None \<Rightarrow> Inl JsonSyntaxError
      | Some (JArray rs) \<Rightarrow> Inr (List.map_filter (opensheet_record now) rs, length rs)
      | Some _ \<Rightarrow> Inl NotAnArray)"

definition read_gviz ::
  "instant \<Rightarrow> (jsstring \<Rightarrow> json option) \<Rightarrow> jsstring \<Rightarrow> error + sheet_record list \<times> nat" where
  \<comment> \<open>the wrapped branch; a decoded value without \<open>table.cols\<close> makes \<open>forEach\<close> throw a
      type error\<close>
  "read_gviz now JSON_parse text =
     (case parseGvizJsonp JSON_parse text of
        Inl e \<Rightarrow> Inl e
      | Inr (JTable gviz) \<Rightarrow>
          (case List.find (\<lambda>r. colIndex (cols gviz) r = None) required of
             Some r \<Rightarrow> Inl (MissingColumn r)
           | None \<Rightarrow>
               Inr (List.map_filter (gviz_record now (colIndex (cols gviz))) (rows gviz),
                    length (rows gviz)))
      | Inr _ \<Rightarrow> Inl TypeError)"

definition read_feed ::
  "instant \<Rightarrow> (jsstring \<Rightarrow> json option) \<Rightarrow> jsstring \<Rightarrow> jsstring \<Rightarrow> error + sheet_record list \<times> nat" where
  \<comment> \<open>the variant is read off the address: \<open>targetUrl.includes("opensheet.elk.sh")\<close>\<close>
  "read_feed now JSON_parse url text =
     (if includes_str url (js ''opensheet.elk.sh'')
      then read_opensheet now JSON_parse text
      else read_gviz now JSON_parse text)"

section \<open>Persisted store\<close>

text \<open>
  The table \<open>public.orders\<close> of the migration, without the column \<open>attachments\<close>, which no
  code here reads or writes. A generated key is a number, drawn from a counter. The store
  answers every operation: an error of the store aborts the job and is outside the model.
\<close>

type_synonym uuid = nat

record order =
  oid :: uuid
  source :: "jsstring option"
  sheet_row_id :: "jsstring option"
  client_name :: jsstring
  requirement_text :: jsstring
  price :: int
  due_date :: "instant option"
  status :: jsstring
  taken_by :: "uuid option"
  taken_at :: "instant option"
  completed_at :: "instant option"
  deliverable_link :: "jsstring option"
  raw_sheet_json :: "raw_row option"
  created_at :: "instant option"
  updated_at :: "instant option"
  actual_amount :: "rat option"
  editor_feedback :: "jsstring option"

record assignment =
  a_order_id :: uuid
  a_user_id :: uuid
  a_action :: jsstring
  a_timestamp :: "instant option"

record db =
  orders :: "order list"
  assignments :: "assignment list"
  next_uuid :: uuid

definition new_order :: "instant \<Rightarrow> uuid \<times> sheet_record \<Rightarrow> order" where
  \<comment> \<open>one inserted row: the columns of the record, the others at their defaults\<close>
  "new_order now ir =
     \<lparr>oid = fst ir,
      source = Some (rec_source (snd ir)),
      sheet_row_id = Some (rec_sheet_row_id (snd ir)),
      client_name = rec_client_name (snd ir),
      requirement_text = rec_requirement_text (snd ir),
      price = rec_price (snd ir),
      due_date = rec_due_date (snd ir),
      status = rec_status (snd ir),
      taken_by = None,
      taken_at = None,
      completed_at = None,
      deliverable_link = None,
      raw_sheet_json = Some (rec_raw_sheet_json (snd ir)),
      created_at = Some now,
      updated_at = Some now,
      actual_amount = None,
      editor_feedback = None\<rparr>"

definition insert_orders :: "instant \<Rightarrow> sheet_record list \<Rightarrow> db \<Rightarrow> db" where
  "insert_orders now recs d =
     d\<lparr>orders := orders d @ map (new_order now) (List.enumerate (next_uuid d) recs),
       next_uuid := next_uuid d + length recs\<rparr>"

definition update_where :: "instant \<Rightarrow> (order \<Rightarrow> bool) \<Rightarrow> (order \<Rightarrow> order) \<Rightarrow> db \<Rightarrow> nat \<times> db" where
  \<comment> \<open>\<open>update(\<dots>)\<close> under its filters: the number of rows it changes and the store after
      it; the trigger of the migration stamps \<open>updated_at\<close> on each of them\<close>
  "update_where now P upd d =
     (length (filter P (orders d)),
      d\<lparr>orders := map (\<lambda>od. if P od then (upd od)\<lparr>updated_at := Some now\<rparr> else od) (orders d)\<rparr>)"

definition delete_where :: "(order \<Rightarrow> bool) \<Rightarrow> db \<Rightarrow> nat \<times> db" where
  \<comment> \<open>\<open>delete({ count: "exact" })\<close> under its filter\<close>
  "delete_where P d =
     (length (filter P (orders d)), d\<lparr>orders := filter (\<lambda>od. \<not> P od) (orders d)\<rparr>)"

definition eq_sheet_row_id :: "jsstring \<Rightarrow> order \<Rightarrow> bool" where
  \<comment> \<open>\<open>.eq("sheet_row_id", x)\<close>: a null column equals nothing\<close>
  "eq_sheet_row_id x od = (sheet_row_id od = Some x)"

definition neq_source :: "jsstring \<Rightarrow> order \<Rightarrow> bool" where
  \<comment> \<open>\<open>.neq("source", x)\<close> is the SQL comparison \<open><>\<close>, which a null column does not pass\<close>
  "neq_source x od = (case source od of None \<Rightarrow> False | Some s \<Rightarrow> s \<noteq> x)"

definition in_sheet_row_id :: "jsstring list \<Rightarrow> order \<Rightarrow> bool" where
  \<comment> \<open>\<open>.in("sheet_row_id", slice)\<close>\<close>
  "in_sheet_row_id ids od = (case sheet_row_id od of None \<Rightarrow> False | Some i \<Rightarrow> i \<in> set ids)"

section \<open>Reconciliation\<close>

definition existingMap :: "db \<Rightarrow> (jsstring \<times> jsstring \<times> uuid option) list" where
  \<comment> \<open>the \<open>Map\<close> built from the selected rows, in insertion order; \<open>if (id)\<close> passes neither
      null nor the empty text\<close>
  "existingMap d =
     foldl (\<lambda>m od. case sheet_row_id od of
                     None \<Rightarrow> m
                   | Some i \<Rightarrow> if i = [] then m else AList.update i (status od, taken_by od) m)
       [] (orders d)"

definition has :: "('k \<times> 'v) list \<Rightarrow> 'k \<Rightarrow> bool" where
  "has m k = (map_of m k \<noteq> None)"

definition update_record :: "instant \<Rightarrow> sheet_record \<Rightarrow> order \<Rightarrow> order" where
  \<comment> \<open>the object passed to \<open>update\<close> in the loop over \<open>updateRecords\<close>\<close>
  "update_record now r od =
     od\<lparr>client_name := rec_client_name r,
       requirement_text := rec_requirement_text r,
       price := rec_price r,
       due_date := rec_due_date r,
       raw_sheet_json := Some (rec_raw_sheet_json r),
       source := Some (js ''google_sheet''),
       updated_at := Some now\<rparr>"

definition apply_updates :: "instant \<Rightarrow> sheet_record list \<Rightarrow> db \<Rightarrow> db" where
  "apply_updates now updateRecords d =
     foldl (\<lambda>d r. snd (update_where now (eq_sheet_row_id (rec_sheet_row_id r)) (update_record now r) d))
       d updateRecords"

definition chunk :: nat where
  "chunk = 1000"

function delete_stale :: "jsstring list \<Rightarrow> nat \<Rightarrow> nat \<times> db \<Rightarrow> nat \<times> db" where
  \<comment> \<open>\<open>for (let i = 0; i < staleIds.length; i += chunk)\<close>, carrying \<open>purged\<close> and the store;
      \<open>batch\<close> is the \<open>slice\<close> of the source\<close>
  "delete_stale staleIds i pd =
     (if i < length staleIds
      then (let batch = take chunk (drop i staleIds);
                (sheetDelCount, d') = delete_where (in_sheet_row_id batch) (snd pd)
            in delete_stale staleIds (i + chunk) (fst pd + sheetDelCount, d'))
      else pd)"
  by pat_completeness auto
termination
  by (relation "measure (\<lambda>(staleIds, i, pd). length staleIds - i)") (auto simp: chunk_def)

declare delete_stale.simps [simp del]

definition staleIds_of :: "(jsstring \<times> 'v) list \<Rightarrow> sheet_record list \<Rightarrow> jsstring list" where
  \<comment> \<open>the keys of \<open>existingMap\<close> that \<open>currentIds\<close> does not hold\<close>
  "staleIds_of m toInsert = filter (\<lambda>i. i \<notin> set (map rec_sheet_row_id toInsert)) (map fst m)"

definition run_purge :: "(jsstring \<times> 'v) list \<Rightarrow> sheet_record list \<Rightarrow> db \<Rightarrow> nat \<times> db" where
  \<comment> \<open>the body of \<open>if (purge)\<close>\<close>
  "run_purge m toInsert d =
     (let (nonSheetCount, d1) = delete_where (neq_source (js ''google_sheet'')) d
      in delete_stale (staleIds_of m toInsert) 0 (nonSheetCount, d1))"

record sync_counts =
  inserted :: nat
  updated :: nat
  purged :: nat
  totalRows :: nat

definition reconcile :: "instant \<Rightarrow> bool \<Rightarrow> sheet_record list \<times> nat \<Rightarrow> db \<Rightarrow> sync_counts \<times> db" where
  \<comment> \<open>the handler from the select of the existing orders to the counts of its response\<close>
  "reconcile now purge feed d =
     (let toInsert = fst feed;
          rowsLength = snd feed;
          m = existingMap d;
          newRecords = filter (\<lambda>r. \<not> has m (rec_sheet_row_id r)) toInsert;
          updateRecords = filter (\<lambda>r. has m (rec_sheet_row_id r)) toInsert;
          d1 = (if newRecords \<noteq> [] then insert_orders now newRecords d else d);
          d2 = apply_updates now updateRecords d1;
          (n, d3) = (if purge then run_purge m toInsert d2 else (0, d2))
      in (\<lparr>inserted = length newRecords, updated = length updateRecords, purged = n,
            totalRows = rowsLength\<rparr>, d3))"

record request =
  is_options :: bool
  purge_flag :: bool
  sheetUrl :: "jsstring option"

record http_response =
  ok :: bool
  http_status :: nat
  body :: jsstring

record runtime =
  has_env :: bool
  clock :: nat
  fetch :: "jsstring \<Rightarrow> http_response"
  JSON_parse :: "jsstring \<Rightarrow> json option"

datatype response = Preflight | MissingEnv | Failure error | Success sync_counts

definition defaultGviz :: jsstring where
  "defaultGviz = js ''https://docs.google.com/spreadsheets/d/1U3FZz4TCV3axNXy9U97xa9Zq85pCpTPZFNIy4Nfg7us/gviz/tq?tqx=out:json&cacheBust=''"

definition targetUrl :: "nat \<Rightarrow> jsstring option \<Rightarrow> jsstring" where
  "targetUrl nowBust override =
     (case override of
        None \<Rightarrow> defaultGviz @ toString_radix 10 nowBust
      | Some u \<Rightarrow>
          if u = [] then defaultGviz @ toString_radix 10 nowBust
          else if includes_str u (js ''?'') then u @ js ''&cacheBust='' @ toString_radix 10 nowBust
          else u @ js ''?cacheBust='' @ toString_radix 10 nowBust)"

definition serve :: "runtime \<Rightarrow> request \<Rightarrow> db \<Rightarrow> response \<times> db" where
  \<comment> \<open>One invocation. The request is its method, and its body when that decodes: the flag
      \<open>Boolean(body?.purge)\<close> and the override when it is a text. Every failure the model
      has comes before the first write, so a failed run leaves the store as it was.\<close>
  "serve rt req d =
     (if is_options req then (Preflight, d)
      else if \<not> has_env rt then (MissingEnv, d)
      else (let url = targetUrl (clock rt) (sheetUrl req);
                res = fetch rt url
            in if \<not> ok res then (Failure (SheetFetchFailed (http_status res)), d)
               else (case read_feed (int (clock rt)) (JSON_parse rt) url (body res) of
                       Inl e \<Rightarrow> (Failure e, d)
                     | Inr feed \<Rightarrow>
                         (let (counts, d') = reconcile (int (clock rt)) (purge_flag req) feed d
                          in (Success counts, d')))))"

section \<open>Dashboard operations\<close>

text \<open>
  The client library reports a failed request in \<open>error\<close>. An update whose filters select no
  row is not a failed request: the store answers it with no row and no error. The row-level
  policies of the migration admit both updates below for the signed-in editor.
\<close>

datatype toast =
    AlreadyTaken
  | FailedToTake
  | TakenOk
  | FailedToComplete
  | CompletedOk

record pg_error =
  code :: jsstring

definition store_update ::
  "instant \<Rightarrow> (order \<Rightarrow> bool) \<Rightarrow> (order \<Rightarrow> order) \<Rightarrow> db \<Rightarrow> pg_error option \<times> db" where
  "store_update now P upd d = (None, snd (update_where now P upd d))"

definition insert_assignment :: "instant \<Rightarrow> uuid \<Rightarrow> uuid \<Rightarrow> jsstring \<Rightarrow> db \<Rightarrow> db" where
  "insert_assignment now orderId userId action d =
     d\<lparr>assignments := assignments d @
         [\<lparr>a_order_id = orderId, a_user_id = userId, a_action = action, a_timestamp = Some now\<rparr>]\<rparr>"

definition take_filter :: "uuid \<Rightarrow> order \<Rightarrow> bool" where
  \<comment> \<open>\<open>.eq("id", orderId).eq("status", "available")\<close>\<close>
  "take_filter orderId od = (oid od = orderId \<and> status od = js ''available'')"

definition handleTakeOrder :: "instant \<Rightarrow> uuid \<Rightarrow> uuid \<Rightarrow> db \<Rightarrow> toast \<times> db" where
  "handleTakeOrder now userId orderId d =
     (let (error, d') =
            store_update now (take_filter orderId)
              (\<lambda>od. od\<lparr>status := js ''taken'', taken_by := Some userId, taken_at := Some now\<rparr>) d
      in case error of
           Some e \<Rightarrow> (if code e = js ''PGRST116'' then (AlreadyTaken, d') else (FailedToTake, d'))
         | None \<Rightarrow> (TakenOk, insert_assignment now orderId userId (js ''taken'') d'))"

definition complete_filter :: "uuid \<Rightarrow> uuid \<Rightarrow> order \<Rightarrow> bool" where
  \<comment> \<open>\<open>.eq("id", orderId).eq("taken_by", userId)\<close>\<close>
  "complete_filter userId orderId od = (oid od = orderId \<and> taken_by od = Some userId)"

definition handleCompleteOrder ::
  "instant \<Rightarrow> uuid \<Rightarrow> jsstring option \<Rightarrow> rat option \<Rightarrow> jsstring option \<Rightarrow> uuid \<Rightarrow> db \<Rightarrow> toast \<times> db" where
  \<comment> \<open>\<open>deliverableLink\<close> and \<open>feedback\<close> are the entries of the form state for the order,
      \<open>actualAmount\<close> the amount after \<open>Number\<close>; an empty text is stored as null\<close>
  "handleCompleteOrder now userId deliverableLink actualAmount feedback orderId d =
     (let (error, d') =
            store_update now (complete_filter userId orderId)
              (\<lambda>od. od\<lparr>status := js ''completed'',
                      completed_at := Some now,
                      deliverable_link := (if deliverableLink = Some [] then None else deliverableLink),
                      actual_amount := actualAmount,
                      editor_feedback := (if feedback = Some [] then None else feedback)\<rparr>) d
      in case error of
           Some e \<Rightarrow> (FailedToComplete, d')
         | None \<Rightarrow> (CompletedOk, insert_assignment now orderId userId (js ''completed'') d'))"

section \<open>Notions of the specification\<close>



definition MalformedFeed :: "error \<Rightarrow> bool" where
  \<comment> \<open>the two failures of the envelope: a delimiter is absent, or the interior is not JSON\<close>
  "MalformedFeed e = (e = InvalidGvizJsonp \<or> e = JsonSyntaxError)"

definition frame :: "order \<Rightarrow> uuid \<times> jsstring option \<times> jsstring \<times> uuid option \<times> instant option \<times> instant option \<times> jsstring option \<times> instant option \<times> rat option \<times> jsstring option" where
  \<comment> \<open>the columns of an order that the update of the sync job does not name: the key, the
      identity and the workflow fields\<close>
  "frame od = (oid od, sheet_row_id od, status od, taken_by od, taken_at od, completed_at od,
     deliverable_link od, created_at od, actual_amount od, editor_feedback od)"

definition blank_sheet_row :: "sheet_row \<Rightarrow> bool" where
  \<comment> \<open>a row of the array variant with neither a service nor a description\<close>
  "blank_sheet_row row =
     (String_or_empty (or_else (map_of row L_service) (map_of row (js ''Service''))) = [] \<and>
      String_or_empty (or_else (map_of row L_desc) (map_of row (js ''Description''))) = [])"

definition blank_gviz_row :: "(jsstring \<Rightarrow> nat option) \<Rightarrow> gviz_row \<Rightarrow> bool" where
  \<comment> \<open>a row of the wrapped variant with neither a service nor a description\<close>
  "blank_gviz_row ci row =
     (String_or_empty (gviz_get ci row L_service) = [] \<and> String_or_empty (gviz_get ci row L_desc) = [])"

definition feed_rows :: "(jsstring \<Rightarrow> json option) \<Rightarrow> jsstring \<Rightarrow> jsstring \<Rightarrow> (raw_row \<times> bool) list" where
  \<comment> \<open>the rows of the fetched feed, each with whether it is blank\<close>
  "feed_rows P url text =
     (if includes_str url (js ''opensheet.elk.sh'')
      then (case P text of
              Some (JArray rs) \<Rightarrow> map (\<lambda>r. (SheetRow r, blank_sheet_row r)) rs
            | _ \<Rightarrow> [])
      else (case parseGvizJsonp P text of
              Inr (JTable g) \<Rightarrow> map (\<lambda>r. (GvizRow r, blank_gviz_row (colIndex (cols g)) r)) (rows g)
            | _ \<Rightarrow> []))"

definition row_after :: "instant \<Rightarrow> sheet_record list \<Rightarrow> order \<Rightarrow> order" where
  \<comment> \<open>an order after the loop over \<open>updateRecords\<close>\<close>
  "row_after now us od =
     foldl (\<lambda>od r. if eq_sheet_row_id (rec_sheet_row_id r) od
                    then (update_record now r od)\<lparr>updated_at := Some now\<rparr> else od) od us"

function batches :: "jsstring list \<Rightarrow> nat \<Rightarrow> jsstring list list" where
  \<comment> \<open>the slices that the loop of the purge takes from index \<open>i\<close> on\<close>
  "batches ids i = (if i < length ids then take chunk (drop i ids) # batches ids (i + chunk) else [])"
  by pat_completeness auto
termination
  by (relation "measure (\<lambda>(ids, i). length ids - i)") (auto simp: chunk_def)

declare batches.simps [simp del]

definition delete_batch :: "nat \<times> db \<Rightarrow> jsstring list \<Rightarrow> nat \<times> db" where
  \<comment> \<open>one deletion by identity, adding its count\<close>
  "delete_batch pd b =
     (fst pd + fst (delete_where (in_sheet_row_id b) (snd pd)), snd (delete_where (in_sheet_row_id b) (snd pd)))"

subsection \<open>A sheet of two rows, one of them blank\<close>

definition demo_rows :: "sheet_row list" where
  "demo_rows = [[(L_service, js ''Logo''), (L_timeline, js ''urgent'')], [(L_name, js ''Nobody'')]]"

definition demo_body :: "jsstring \<Rightarrow> http_response" where
  "demo_body url = \<lparr>ok = True, http_status = 200, body = []\<rparr>"

definition demo_parse :: "jsstring \<Rightarrow> json option" where
  "demo_parse text = Some (JArray demo_rows)"

definition demo_runtime :: runtime where
  "demo_runtime = \<lparr>has_env = True, clock = 0, fetch = demo_body, JSON_parse = demo_parse\<rparr>"

definition demo_request :: request where
  "demo_request = \<lparr>is_options = False, purge_flag = False, sheetUrl = Some (js ''https://opensheet.elk.sh/1U3/1'')\<rparr>"

definition empty_db :: db where
  "empty_db = \<lparr>orders = [], assignments = [], next_uuid = 0\<rparr>"

subsection \<open>Stores and records of the examples\<close>

definition taken_order :: order where
  "taken_order =
     \<lparr>oid = 7, source = Some (js ''google_sheet''), sheet_row_id = Some (js ''t1''),
      client_name = js ''Asha'', requirement_text = js ''Reel'', price = 0, due_date = None,
      status = js ''taken'', taken_by = Some 42, taken_at = Some 5, completed_at = None,
      deliverable_link = None, raw_sheet_json = None, created_at = Some 1, updated_at = Some 5,
      actual_amount = None, editor_feedback = None\<rparr>"

definition taken_db :: db where
  "taken_db = \<lparr>orders = [taken_order], assignments = [], next_uuid = 8\<rparr>"

definition changed_record :: sheet_record where
  "changed_record =
     \<lparr>rec_client_name = js ''Asha'', rec_requirement_text = js ''Reel of 30 seconds'', rec_price = 0,
      rec_due_date = None, rec_status = js ''available'', rec_source = js ''google_sheet'',
      rec_sheet_row_id = js ''t1'', rec_raw_sheet_json = SheetRow []\<rparr>"

definition stale_order :: order where
  "stale_order = taken_order\<lparr>oid := 3, sheet_row_id := Some (js ''old''), status := js ''available'',
     taken_by := None, taken_at := None\<rparr>"

definition foreign_order :: order where
  "foreign_order = taken_order\<lparr>oid := 4, source := Some (js ''manual''), sheet_row_id := None\<rparr>"

definition purge_db :: db where
  "purge_db = \<lparr>orders = [taken_order, stale_order, foreign_order], assignments = [], next_uuid = 8\<rparr>"

definition stray_order :: order where
  "stray_order = taken_order\<lparr>oid := 5, sheet_row_id := Some []\<rparr>"

definition stray_db :: db where
  "stray_db = \<lparr>orders = [stray_order], assignments = [], next_uuid = 8\<rparr>"

definition empty_parse :: "jsstring \<Rightarrow> json option" where
  "empty_parse text = Some (JArray [])"

definition empty_runtime :: runtime where
  "empty_runtime = \<lparr>has_env = True, clock = 0, fetch = demo_body, JSON_parse = empty_parse\<rparr>"

definition purge_request :: request where
  "purge_request = \<lparr>is_options = False, purge_flag = True, sheetUrl = Some (js ''https://opensheet.elk.sh/1U3/1'')\<rparr>"

subsection \<open>The same sheet read later, and a sheet with a repeated row\<close>

definition shifted :: "int \<Rightarrow> sheet_record \<Rightarrow> sheet_record" where
  \<comment> \<open>a record with its due date moved by \<open>k\<close> milliseconds\<close>
  "shifted k r = r\<lparr>rec_due_date := map_option (\<lambda>t. t + k) (rec_due_date r)\<rparr>"

definition later_runtime :: runtime where
  "later_runtime = demo_runtime\<lparr>clock := 1\<rparr>"

definition dup_rows :: "sheet_row list" where
  "dup_rows = [[(L_service, js ''Logo'')], [(L_service, js ''Logo'')]]"

definition dup_parse :: "jsstring \<Rightarrow> json option" where
  "dup_parse text = Some (JArray dup_rows)"

definition dup_runtime :: runtime where
  "dup_runtime = \<lparr>has_env = True, clock = 0, fetch = demo_body, JSON_parse = dup_parse\<rparr>"

subsection \<open>An order that is already completed\<close>

definition completed_order :: order where
  "completed_order = taken_order\<lparr>status := js ''completed'', completed_at := Some 6,
     deliverable_link := Some (js ''https://files/1'')\<rparr>"

definition completed_db :: db where
  "completed_db = \<lparr>orders = [completed_order], assignments = [], next_uuid = 8\<rparr>"

subsection \<open>A table without columns\<close>

definition bare_table :: GvizTable where
  \<comment> \<open>a decoded table with no column and no row\<close>
  "bare_table = \<lparr>cols = [], rows = []\<rparr>"

definition bare_parse :: "jsstring \<Rightarrow> json option" where
  "bare_parse text = Some (JTable bare_table)"

subsection \<open>The budget text and its matches\<close>









section \<open>Substrings\<close>

lemma starts_with_iff: "starts_with s p \<longleftrightarrow> (\<exists>post. s = p @ post)"
  unfolding starts_with_def
  by (metis append_eq_conv_conj append_take_drop_id)

lemma includes_str_iff: "includes_str s p \<longleftrightarrow> (\<exists>pre post. s = pre @ p @ post)"
proof (induction s)
  case Nil
  then show ?case by auto
next
  case (Cons x s)
  show ?case
  proof
    assume "includes_str (x # s) p"
    then consider "starts_with (x # s) p" | "includes_str s p" by auto
    then show "\<exists>pre post. x # s = pre @ p @ post"
    proof cases
      case 1
      then obtain post where "x # s = p @ post" by (auto simp: starts_with_iff)
      then have "x # s = [] @ p @ post" by simp
      then show ?thesis by blast
    next
      case 2
      with Cons.IH obtain pre post where "s = pre @ p @ post" by blast
      then have "x # s = (x # pre) @ p @ post" by simp
      then show ?thesis by blast
    qed
  next
    assume "\<exists>pre post. x # s = pre @ p @ post"
    then obtain pre post where e: "x # s = pre @ p @ post" by blast
    show "includes_str (x # s) p"
    proof (cases pre)
      case Nil
      with e have "starts_with (x # s) p" by (auto simp: starts_with_iff)
      then show ?thesis by simp
    next
      case (Cons y pre')
      with e have "s = pre' @ p @ post" by simp
      with Cons.IH have "includes_str s p" by blast
      then show ?thesis by simp
    qed
  qed
qed

section \<open>The timeline rules\<close>





section \<open>The resolved identity\<close>


lemma toString_radix_not_empty: "toString_radix r n \<noteq> []"
  by (subst toString_radix.simps) simp




section \<open>The store under the operations of the job\<close>

lemma frame_update_record: "frame ((update_record now r od)\<lparr>updated_at := t\<rparr>) = frame od"
  by (simp add: frame_def update_record_def)

lemma orders_update_where:
  "orders (snd (update_where now P upd d)) =
     map (\<lambda>od. if P od then (upd od)\<lparr>updated_at := Some now\<rparr> else od) (orders d)"
  by (simp add: update_where_def)

lemma insert_orders_Nil: "insert_orders now [] d = d"
  by (simp add: insert_orders_def enumerate_simps)

lemma orders_insert_orders:
  "orders (insert_orders now recs d) = orders d @ map (new_order now) (List.enumerate (next_uuid d) recs)"
  by (simp add: insert_orders_def)

lemma orders_delete_where: "orders (snd (delete_where P d)) = filter (\<lambda>od. \<not> P od) (orders d)"
  by (simp add: delete_where_def)

lemma fst_delete_where: "fst (delete_where P d) = length (filter P (orders d))"
  by (simp add: delete_where_def)

lemma in_sheet_row_id_split:
  "in_sheet_row_id (drop i ids) od \<longleftrightarrow>
     in_sheet_row_id (take k (drop i ids)) od \<or> in_sheet_row_id (drop (i + k) ids) od"
proof -
  have "drop i ids = take k (drop i ids) @ drop (i + k) ids"
    by (metis append_take_drop_id drop_drop add.commute)
  then have "set (drop i ids) = set (take k (drop i ids)) \<union> set (drop (i + k) ids)"
    by (metis set_append)
  then show ?thesis
    by (auto simp: in_sheet_row_id_def split: option.splits)
qed

lemma filter_count_split':
  "length (filter P xs) + length (filter (\<lambda>x. \<not> P x \<and> Q x) xs) = length (filter (\<lambda>x. P x \<or> Q x) xs)"
  by (induction xs) auto

lemma delete_stale_result:
  "delete_stale ids i pd =
     (fst pd + length (filter (in_sheet_row_id (drop i ids)) (orders (snd pd))),
      (snd pd)\<lparr>orders := filter (\<lambda>od. \<not> in_sheet_row_id (drop i ids) od) (orders (snd pd))\<rparr>)"
proof (induction ids i pd rule: delete_stale.induct)
  case (1 ids i pd)
  show ?case
  proof (cases "i < length ids")
    case False
    then have "drop i ids = []" by simp
    with False show ?thesis
      by (subst delete_stale.simps) (simp add: in_sheet_row_id_def prod_eq_iff split: option.splits)
  next
    case True
    let ?b = "take chunk (drop i ids)"
    obtain k d' where dw: "delete_where (in_sheet_row_id ?b) (snd pd) = (k, d')"
      by (cases "delete_where (in_sheet_row_id ?b) (snd pd)")
    then have k: "k = length (filter (in_sheet_row_id ?b) (orders (snd pd)))"
      and d': "d' = (snd pd)\<lparr>orders := filter (\<lambda>od. \<not> in_sheet_row_id ?b od) (orders (snd pd))\<rparr>"
      by (auto simp: delete_where_def)
    have step: "delete_stale ids i pd = delete_stale ids (i + chunk) (fst pd + k, d')"
      using True dw by (subst delete_stale.simps) (simp add: Let_def)
    note ih = "1.IH" [OF True refl refl dw [symmetric]]
    have eq: "in_sheet_row_id (drop i ids) =
        (\<lambda>x. in_sheet_row_id ?b x \<or> in_sheet_row_id (drop (i + chunk) ids) x)"
      by (rule ext) (rule in_sheet_row_id_split)
    have cnt: "k + length (filter (in_sheet_row_id (drop (i + chunk) ids)) (orders d')) =
        length (filter (in_sheet_row_id (drop i ids)) (orders (snd pd)))"
      unfolding k d' eq by (simp add: filter_count_split')
    have ord: "filter (\<lambda>od. \<not> in_sheet_row_id (drop (i + chunk) ids) od) (orders d') =
        filter (\<lambda>od. \<not> in_sheet_row_id (drop i ids) od) (orders (snd pd))"
      unfolding d' eq by (simp add: conj_commute)
    show ?thesis
      unfolding step ih using cnt ord by (simp add: d')
  qed
qed

lemma run_purge_result:
  "run_purge m toInsert d =
     (length (filter (\<lambda>od. neq_source (js ''google_sheet'') od \<or> in_sheet_row_id (staleIds_of m toInsert) od) (orders d)),
      d\<lparr>orders := filter (\<lambda>od. \<not> neq_source (js ''google_sheet'') od \<and> \<not> in_sheet_row_id (staleIds_of m toInsert) od) (orders d)\<rparr>)"
proof -
  obtain k d1 where dw: "delete_where (neq_source (js ''google_sheet'')) d = (k, d1)"
    by (cases "delete_where (neq_source (js ''google_sheet'')) d")
  then have k: "k = length (filter (neq_source (js ''google_sheet'')) (orders d))"
    and d1: "d1 = d\<lparr>orders := filter (\<lambda>od. \<not> neq_source (js ''google_sheet'') od) (orders d)\<rparr>"
    by (auto simp: delete_where_def)
  have "run_purge m toInsert d = delete_stale (staleIds_of m toInsert) 0 (k, d1)"
    by (simp add: run_purge_def dw)
  then show ?thesis
    unfolding delete_stale_result k d1
    by (simp add: filter_count_split')
qed

lemma existingMap_keys_aux:
  "fst ` set (foldl (\<lambda>m od. case sheet_row_id od of
                     None \<Rightarrow> m
                   | Some i \<Rightarrow> if i = [] then m else AList.update i (status od, taken_by od) m) m0 xs)
   = fst ` set m0 \<union> {k. k \<noteq> [] \<and> (\<exists>od \<in> set xs. sheet_row_id od = Some k)}"
proof (induction xs arbitrary: m0)
  case Nil
  then show ?case by simp
next
  case (Cons x xs)
  have upd: "fst ` set (AList.update k v m0) = insert k (fst ` set m0)" for k and v :: "jsstring \<times> uuid option"
    using dom_update [of k v m0] by (simp add: dom_map_of_conv_image_fst)
  show ?case
    by (cases "sheet_row_id x") (auto simp: Cons.IH upd)
qed

lemma has_existingMap:
  "has (existingMap d) k \<longleftrightarrow> k \<noteq> [] \<and> (\<exists>od \<in> set (orders d). sheet_row_id od = Some k)"
proof -
  have "has (existingMap d) k \<longleftrightarrow> k \<in> fst ` set (existingMap d)"
    by (simp add: has_def map_of_eq_None_iff)
  then show ?thesis
    unfolding existingMap_def existingMap_keys_aux by simp
qed

lemma reconcile_eq:
  "reconcile now p feed d =
     (\<lparr>inserted = length (filter (\<lambda>r. \<not> has (existingMap d) (rec_sheet_row_id r)) (fst feed)),
       updated = length (filter (\<lambda>r. has (existingMap d) (rec_sheet_row_id r)) (fst feed)),
       purged = (if p then fst (run_purge (existingMap d) (fst feed)
                   (apply_updates now (filter (\<lambda>r. has (existingMap d) (rec_sheet_row_id r)) (fst feed))
                     (insert_orders now (filter (\<lambda>r. \<not> has (existingMap d) (rec_sheet_row_id r)) (fst feed)) d)))
                 else 0),
       totalRows = snd feed\<rparr>,
      if p then snd (run_purge (existingMap d) (fst feed)
                   (apply_updates now (filter (\<lambda>r. has (existingMap d) (rec_sheet_row_id r)) (fst feed))
                     (insert_orders now (filter (\<lambda>r. \<not> has (existingMap d) (rec_sheet_row_id r)) (fst feed)) d)))
      else apply_updates now (filter (\<lambda>r. has (existingMap d) (rec_sheet_row_id r)) (fst feed))
             (insert_orders now (filter (\<lambda>r. \<not> has (existingMap d) (rec_sheet_row_id r)) (fst feed)) d))"
proof -
  have ins: "(if recs \<noteq> [] then insert_orders now recs d else d) = insert_orders now recs d" for recs
    by (simp add: insert_orders_Nil)
  show ?thesis
    unfolding reconcile_def Let_def ins by (simp split: prod.splits)
qed

lemma row_after_Nil: "row_after now [] od = od"
  by (simp add: row_after_def)

lemma row_after_Cons:
  "row_after now (u # us) od =
     row_after now us (if eq_sheet_row_id (rec_sheet_row_id u) od
                       then (update_record now u od)\<lparr>updated_at := Some now\<rparr> else od)"
  by (simp add: row_after_def)

lemma orders_apply_updates: "orders (apply_updates now us d) = map (row_after now us) (orders d)"
proof (induction us arbitrary: d)
  case Nil
  then show ?case by (simp add: apply_updates_def row_after_def)
next
  case (Cons u us)
  have "apply_updates now (u # us) d =
      apply_updates now us (snd (update_where now (eq_sheet_row_id (rec_sheet_row_id u)) (update_record now u) d))"
    by (simp add: apply_updates_def)
  then show ?case
    by (simp add: Cons.IH orders_update_where row_after_Cons cong: if_cong)
qed

lemma frame_row_after: "frame (row_after now us od) = frame od"
  by (induction us arbitrary: od) (simp_all add: row_after_Nil row_after_Cons frame_update_record)

lemma sheet_row_id_row_after: "sheet_row_id (row_after now us od) = sheet_row_id od"
  using frame_row_after [of now us od] by (simp add: frame_def)

lemma source_row_after_cases:
  "source (row_after now us od) = source od \<or> source (row_after now us od) = Some (js ''google_sheet'')"
proof (induction us arbitrary: od)
  case Nil
  then show ?case by (simp add: row_after_Nil)
next
  case (Cons u us)
  show ?case
    using Cons.IH [of od] Cons.IH [of "(update_record now u od)\<lparr>updated_at := Some now\<rparr>"]
    by (auto simp: row_after_Cons update_record_def)
qed

lemma source_row_after_matched:
  "r \<in> set us \<Longrightarrow> sheet_row_id od = Some (rec_sheet_row_id r) \<Longrightarrow>
   source (row_after now us od) = Some (js ''google_sheet'')"
proof (induction us arbitrary: od)
  case Nil
  then show ?case by simp
next
  case (Cons u us)
  let ?od' = "if eq_sheet_row_id (rec_sheet_row_id u) od
              then (update_record now u od)\<lparr>updated_at := Some now\<rparr> else od"
  have id': "sheet_row_id ?od' = sheet_row_id od"
    by (simp add: update_record_def)
  show ?case
  proof (cases "r = u")
    case True
    with Cons.prems have "source ?od' = Some (js ''google_sheet'')"
      by (simp add: eq_sheet_row_id_def update_record_def)
    with source_row_after_cases [of now us ?od'] show ?thesis
      by (auto simp: row_after_Cons)
  next
    case False
    with Cons.prems have "r \<in> set us" by simp
    from Cons.IH [OF this, of ?od'] Cons.prems id' show ?thesis
      by (simp add: row_after_Cons)
  qed
qed

lemma delete_stale_batches: "delete_stale ids i pd = foldl delete_batch pd (batches ids i)"
proof (induction ids i pd rule: delete_stale.induct)
  case (1 ids i pd)
  show ?case
  proof (cases "i < length ids")
    case False
    then show ?thesis
      by (subst delete_stale.simps, subst batches.simps) simp
  next
    case True
    obtain k d' where dw: "delete_where (in_sheet_row_id (take chunk (drop i ids))) (snd pd) = (k, d')"
      by (cases "delete_where (in_sheet_row_id (take chunk (drop i ids))) (snd pd)")
    note ih = "1.IH" [OF True refl refl dw [symmetric]]
    have "delete_stale ids i pd = delete_stale ids (i + chunk) (fst pd + k, d')"
      using True dw by (subst delete_stale.simps) (simp add: Let_def)
    also have "\<dots> = foldl delete_batch (fst pd + k, d') (batches ids (i + chunk))"
      by (rule ih)
    also have "\<dots> = foldl delete_batch (delete_batch pd (take chunk (drop i ids))) (batches ids (i + chunk))"
      by (simp only: delete_batch_def dw fst_conv snd_conv)
    also have "\<dots> = foldl delete_batch pd (batches ids i)"
      using True by (subst (2) batches.simps) simp
    finally show ?thesis .
  qed
qed

lemma batches_bounded: "b \<in> set (batches ids i) \<Longrightarrow> length b \<le> chunk \<and> b \<noteq> []"
proof (induction ids i rule: batches.induct)
  case (1 ids i)
  show ?case
  proof (cases "i < length ids")
    case False
    with "1.prems" show ?thesis by (subst (asm) batches.simps) simp
  next
    case True
    from "1.prems" True have "b = take chunk (drop i ids) \<or> b \<in> set (batches ids (i + chunk))"
      by (subst (asm) batches.simps) simp
    then show ?thesis
    proof
      assume "b = take chunk (drop i ids)"
      with True show ?thesis by (simp add: chunk_def)
    next
      assume "b \<in> set (batches ids (i + chunk))"
      with "1.IH" True show ?thesis by blast
    qed
  qed
qed

lemma concat_batches: "concat (batches ids i) = drop i ids"
proof (induction ids i rule: batches.induct)
  case (1 ids i)
  show ?case
  proof (cases "i < length ids")
    case False
    then show ?thesis by (subst batches.simps) simp
  next
    case True
    have "drop i ids = take chunk (drop i ids) @ drop (i + chunk) ids"
      by (metis append_take_drop_id drop_drop add.commute)
    with True "1.IH" show ?thesis by (subst batches.simps) simp
  qed
qed

lemma run_purge_batches:
  "run_purge m toInsert d =
     foldl delete_batch (delete_where (neq_source (js ''google_sheet'')) d) (batches (staleIds_of m toInsert) 0)"
  by (simp add: run_purge_def delete_stale_batches split: prod.splits)

lemma set_staleIds_existingMap:
  "set (staleIds_of (existingMap d) toInsert) =
     {i. i \<noteq> [] \<and> (\<exists>od \<in> set (orders d). sheet_row_id od = Some i) \<and> i \<notin> rec_sheet_row_id ` set toInsert}"
proof (rule set_eqI)
  fix i
  have a: "i \<in> set (staleIds_of (existingMap d) toInsert) \<longleftrightarrow>
      i \<in> fst ` set (existingMap d) \<and> i \<notin> rec_sheet_row_id ` set toInsert"
    by (simp add: staleIds_of_def)
  have b: "i \<in> fst ` set (existingMap d) \<longleftrightarrow> has (existingMap d) i"
    by (simp add: has_def map_of_eq_None_iff)
  show "i \<in> set (staleIds_of (existingMap d) toInsert) \<longleftrightarrow>
      i \<in> {i. i \<noteq> [] \<and> (\<exists>od \<in> set (orders d). sheet_row_id od = Some i) \<and> i \<notin> rec_sheet_row_id ` set toInsert}"
    unfolding a b has_existingMap mem_Collect_eq by (rule conj_assoc)
qed

lemma sheet_row_id_new_order: "sheet_row_id (new_order now (k, r)) = Some (rec_sheet_row_id r)"
  by (simp add: new_order_def)

lemma in_set_enumerate_snd: "x \<in> set (List.enumerate n xs) \<Longrightarrow> snd x \<in> set xs"
  by (metis in_set_zipE enumerate_eq_zip prod.collapse)

lemma before_purge_rows:
  assumes "od' \<in> set (orders (apply_updates now us (insert_orders now new d)))"
  shows "(\<exists>od \<in> set (orders d). od' = row_after now us od) \<or>
         (\<exists>k r. r \<in> set new \<and> od' = row_after now us (new_order now (k, r)))"
proof -
  from assms obtain x where x: "x \<in> set (orders d) \<or> x \<in> set (map (new_order now) (List.enumerate (next_uuid d) new))"
    and od': "od' = row_after now us x"
    by (auto simp: orders_apply_updates orders_insert_orders)
  from x show ?thesis
  proof
    assume "x \<in> set (orders d)"
    with od' show ?thesis by blast
  next
    assume "x \<in> set (map (new_order now) (List.enumerate (next_uuid d) new))"
    then obtain kr where kr: "kr \<in> set (List.enumerate (next_uuid d) new)" and xe: "x = new_order now kr"
      by auto
    from in_set_enumerate_snd [OF kr] have "snd kr \<in> set new" .
    with xe od' have "snd kr \<in> set new \<and> od' = row_after now us (new_order now (fst kr, snd kr))"
      by simp
    then show ?thesis by blast
  qed
qed

lemma purge_postcondition:
  assumes r: "reconcile now True feed d = (counts, d')"
  shows "(\<forall>od \<in> set (orders d'). source od = None \<or> source od = Some (js ''google_sheet'')) \<and>
         (\<forall>od \<in> set (orders d'). \<forall>i. sheet_row_id od = Some i \<and> i \<noteq> [] \<longrightarrow> i \<in> rec_sheet_row_id ` set (fst feed)) \<and>
         purged counts + length (orders d') = length (orders d) + inserted counts"
proof -
  let ?m = "existingMap d"
  let ?new = "filter (\<lambda>r. \<not> has ?m (rec_sheet_row_id r)) (fst feed)"
  let ?upd = "filter (\<lambda>r. has ?m (rec_sheet_row_id r)) (fst feed)"
  let ?d2 = "apply_updates now ?upd (insert_orders now ?new d)"
  let ?stale = "staleIds_of ?m (fst feed)"
  let ?keep = "\<lambda>od. \<not> neq_source (js ''google_sheet'') od \<and> \<not> in_sheet_row_id ?stale od"
  have re: "reconcile now True feed d =
      (\<lparr>inserted = length ?new, updated = length ?upd,
        purged = fst (run_purge ?m (fst feed) ?d2), totalRows = snd feed\<rparr>,
       snd (run_purge ?m (fst feed) ?d2))"
    by (simp only: reconcile_eq if_True)
  from r have d'eq: "d' = snd (run_purge ?m (fst feed) ?d2)"
    and ceq: "counts = \<lparr>inserted = length ?new, updated = length ?upd,
        purged = fst (run_purge ?m (fst feed) ?d2), totalRows = snd feed\<rparr>"
    unfolding re by simp_all
  have d': "orders d' = filter ?keep (orders ?d2)"
    unfolding d'eq run_purge_result by simp
  have c: "purged counts = length (filter (\<lambda>od. \<not> ?keep od) (orders ?d2))"
    unfolding ceq run_purge_result by simp
  have ins: "inserted counts = length ?new"
    unfolding ceq by simp
  have src: "source od = None \<or> source od = Some (js ''google_sheet'')" if "od \<in> set (orders d')" for od
    using that unfolding d' by (auto simp: neq_source_def split: option.splits)
  have ids: "i \<in> rec_sheet_row_id ` set (fst feed)"
    if od: "od \<in> set (orders d')" and i: "sheet_row_id od = Some i" "i \<noteq> []" for od i
  proof (rule ccontr)
    assume absent: "i \<notin> rec_sheet_row_id ` set (fst feed)"
    from od have in2: "od \<in> set (orders ?d2)" and keep: "\<not> in_sheet_row_id ?stale od"
      unfolding d' by auto
    from before_purge_rows [OF in2] show False
    proof
      assume "\<exists>x \<in> set (orders d). od = row_after now ?upd x"
      then obtain x where x: "x \<in> set (orders d)" "od = row_after now ?upd x" by blast
      with i have "sheet_row_id x = Some i" by (simp add: sheet_row_id_row_after)
      with x i absent have "i \<in> set ?stale"
        unfolding set_staleIds_existingMap by blast
      with i keep show False by (simp add: in_sheet_row_id_def)
    next
      assume "\<exists>k r. r \<in> set ?new \<and> od = row_after now ?upd (new_order now (k, r))"
      then obtain k r where "r \<in> set ?new" "od = row_after now ?upd (new_order now (k, r))" by blast
      with i have "r \<in> set (fst feed)" "i = rec_sheet_row_id r"
        by (simp_all add: sheet_row_id_row_after sheet_row_id_new_order)
      with absent show False by blast
    qed
  qed
  have "length (orders ?d2) = length (orders d) + length ?new"
    by (simp add: orders_apply_updates orders_insert_orders)
  moreover have "length (filter (\<lambda>od. \<not> ?keep od) (orders ?d2)) + length (filter ?keep (orders ?d2)) = length (orders ?d2)"
    using sum_length_filter_compl [of "\<lambda>od. \<not> ?keep od" "orders ?d2"] by simp
  ultimately have "purged counts + length (orders d') = length (orders d) + inserted counts"
    unfolding d' c ins by simp
  with src ids show ?thesis by blast
qed

lemma no_purge_postcondition:
  assumes r: "reconcile now False feed d = (counts, d')"
  shows "purged counts = 0 \<and> length (orders d') = length (orders d) + inserted counts \<and>
         map frame (take (length (orders d)) (orders d')) = map frame (orders d)"
proof -
  let ?m = "existingMap d"
  let ?new = "filter (\<lambda>r. \<not> has ?m (rec_sheet_row_id r)) (fst feed)"
  let ?upd = "filter (\<lambda>r. has ?m (rec_sheet_row_id r)) (fst feed)"
  let ?d2 = "apply_updates now ?upd (insert_orders now ?new d)"
  have re: "reconcile now False feed d =
      (\<lparr>inserted = length ?new, updated = length ?upd, purged = 0, totalRows = snd feed\<rparr>, ?d2)"
    by (simp only: reconcile_eq if_False)
  from r have d'eq: "d' = ?d2"
    and ceq: "counts = \<lparr>inserted = length ?new, updated = length ?upd, purged = 0, totalRows = snd feed\<rparr>"
    unfolding re by simp_all
  have o: "orders d' = map (row_after now ?upd) (orders d) @
      map (row_after now ?upd) (map (new_order now) (List.enumerate (next_uuid d) ?new))"
    unfolding d'eq by (simp only: orders_apply_updates orders_insert_orders map_append)
  have "map frame (take (length (orders d)) (orders d')) = map frame (map (row_after now ?upd) (orders d))"
    unfolding o by simp
  also have "\<dots> = map frame (orders d)"
    by (simp add: frame_row_after)
  finally have f: "map frame (take (length (orders d)) (orders d')) = map frame (orders d)" .
  have "length (orders d') = length (orders d) + length ?new"
    unfolding o by simp
  with f show ?thesis unfolding ceq by simp
qed

section \<open>Counts of a run\<close>

lemma to_record_None_iff:
  "to_record now row name service desc budgetRaw timeline timestamp = None \<longleftrightarrow> service = [] \<and> desc = []"
  by (simp add: to_record_def Let_def)

lemma opensheet_record_None_iff: "opensheet_record now row = None \<longleftrightarrow> blank_sheet_row row"
  by (simp add: opensheet_record_def Let_def to_record_None_iff blank_sheet_row_def)

lemma gviz_record_None_iff: "gviz_record now ci row = None \<longleftrightarrow> blank_gviz_row ci row"
  by (simp add: gviz_record_def Let_def to_record_None_iff blank_gviz_row_def)

lemma length_map_filter: "length (List.map_filter g xs) = length (filter (\<lambda>x. g x \<noteq> None) xs)"
  by (induction xs) (auto simp: List.map_filter_simps split: option.splits)

lemma read_opensheet_Inr:
  "read_opensheet now P text = Inr feed \<Longrightarrow>
   \<exists>rs. P text = Some (JArray rs) \<and> snd feed = length rs \<and>
        fst feed = List.map_filter (opensheet_record now) rs \<and>
        length (fst feed) = length (filter (\<lambda>r. \<not> blank_sheet_row r) rs)"
  by (auto simp: read_opensheet_def length_map_filter opensheet_record_None_iff
      split: option.splits json.splits)

lemma read_gviz_Inr:
  "read_gviz now P text = Inr feed \<Longrightarrow>
   \<exists>g. parseGvizJsonp P text = Inr (JTable g) \<and> snd feed = length (rows g) \<and>
       fst feed = List.map_filter (gviz_record now (colIndex (cols g))) (rows g) \<and>
       length (fst feed) = length (filter (\<lambda>r. \<not> blank_gviz_row (colIndex (cols g)) r) (rows g))"
  by (auto simp: read_gviz_def length_map_filter gviz_record_None_iff
      split: option.splits json.splits sum.splits)

lemma read_feed_length: "read_feed now P url text = Inr feed \<Longrightarrow> length (fst feed) \<le> snd feed"
  by (auto simp: read_feed_def split: if_splits dest!: read_opensheet_Inr read_gviz_Inr)

lemma read_feed_rows:
  assumes "read_feed now P url text = Inr feed"
  shows "snd feed = length (feed_rows P url text) \<and>
         length (fst feed) = length (filter (\<lambda>x. \<not> snd x) (feed_rows P url text))"
proof (cases "includes_str url (js ''opensheet.elk.sh'')")
  case True
  with assms have "read_opensheet now P text = Inr feed" by (simp add: read_feed_def)
  from read_opensheet_Inr [OF this] obtain rs where
    "P text = Some (JArray rs)" "snd feed = length rs"
    "length (fst feed) = length (filter (\<lambda>r. \<not> blank_sheet_row r) rs)" by blast
  with True show ?thesis
    by (simp add: feed_rows_def filter_map comp_def)
next
  case False
  with assms have "read_gviz now P text = Inr feed" by (simp add: read_feed_def)
  from read_gviz_Inr [OF this] obtain g where
    "parseGvizJsonp P text = Inr (JTable g)" "snd feed = length (rows g)"
    "length (fst feed) = length (filter (\<lambda>r. \<not> blank_gviz_row (colIndex (cols g)) r) (rows g))" by blast
  with False show ?thesis
    by (simp add: feed_rows_def filter_map comp_def)
qed

lemma reconcile_counts:
  "reconcile now p feed d = (counts, d') \<Longrightarrow>
   totalRows counts = snd feed \<and> inserted counts + updated counts = length (fst feed)"
  unfolding reconcile_eq
  by (auto simp: sum_length_filter_compl add.commute)

lemma serve_Success:
  "serve rt req d = (Success counts, d') \<Longrightarrow>
   \<exists>feed. read_feed (int (clock rt)) (JSON_parse rt) (targetUrl (clock rt) (sheetUrl req))
            (body (fetch rt (targetUrl (clock rt) (sheetUrl req)))) = Inr feed \<and>
          reconcile (int (clock rt)) (purge_flag req) feed d = (counts, d')"
  by (auto simp: serve_def Let_def split: if_splits sum.splits prod.splits)

lemma demo_url: "includes_str (targetUrl 0 (Some (js ''https://opensheet.elk.sh/1U3/1''))) (js ''opensheet.elk.sh'')"
  by (simp add: targetUrl_def js_def starts_with_def)

lemma demo_blank: "blank_sheet_row [(L_name, js ''Nobody'')]"
  by (simp add: blank_sheet_row_def L_name_def L_service_def L_desc_def js_def or_else_def
      String_or_empty_def trim_def)

lemma demo_not_blank: "\<not> blank_sheet_row [(L_service, js ''Logo''), (L_timeline, js ''urgent'')]"
  by (simp add: blank_sheet_row_def or_else_def String_or_empty_def trim_def is_space_def js_def)

lemma demo_feed:
  "\<exists>r. read_feed 0 demo_parse (targetUrl 0 (Some (js ''https://opensheet.elk.sh/1U3/1''))) [] = Inr ([r], 2)"
proof -
  from demo_not_blank
  have "opensheet_record 0 [(L_service, js ''Logo''), (L_timeline, js ''urgent'')] \<noteq> None"
    by (simp add: opensheet_record_None_iff)
  then obtain r where
    r: "opensheet_record 0 [(L_service, js ''Logo''), (L_timeline, js ''urgent'')] = Some r"
    by auto
  from demo_blank have n: "opensheet_record 0 [(L_name, js ''Nobody'')] = None"
    by (simp add: opensheet_record_None_iff)
  show ?thesis
    by (simp add: read_feed_def demo_url read_opensheet_def demo_parse_def demo_rows_def
        List.map_filter_simps r n)
qed

lemma demo_serve: "\<exists>counts d'. serve demo_runtime demo_request empty_db = (Success counts, d')"
proof -
  from demo_feed obtain r where
    "read_feed 0 demo_parse (targetUrl 0 (Some (js ''https://opensheet.elk.sh/1U3/1''))) [] = Inr ([r], 2)"
    by blast
  then show ?thesis
    by (simp add: serve_def demo_runtime_def demo_request_def demo_body_def Let_def split: prod.splits)
qed

lemma demo_feed_rows:
  "feed_rows demo_parse (targetUrl 0 (Some (js ''https://opensheet.elk.sh/1U3/1''))) [] =
     [(SheetRow [(L_service, js ''Logo''), (L_timeline, js ''urgent'')], False),
      (SheetRow [(L_name, js ''Nobody'')], True)]"
  by (simp add: feed_rows_def demo_url demo_parse_def demo_rows_def demo_blank demo_not_blank)

text \<open>
  C10. The \<open>totalRows\<close> of a successful run is the number of rows of the fetched feed,
  the blank ones too: a row with neither service nor description is counted there, and
  nowhere else. \<open>inserted\<close> and \<open>updated\<close> together count the rows that are not blank, so
  their sum can stay below \<open>totalRows\<close>, as for the sheet of two rows with one blank.
\<close>

theorem totalRows_counts_all_feed_rows:
  assumes "serve rt req d = (Success counts, d')"
  shows "totalRows counts =
           length (feed_rows (JSON_parse rt) (targetUrl (clock rt) (sheetUrl req))
                     (body (fetch rt (targetUrl (clock rt) (sheetUrl req))))) \<and>
         inserted counts + updated counts =
           length (filter (\<lambda>x. \<not> snd x)
                     (feed_rows (JSON_parse rt) (targetUrl (clock rt) (sheetUrl req))
                        (body (fetch rt (targetUrl (clock rt) (sheetUrl req)))))) \<and>
         inserted counts + updated counts \<le> totalRows counts"
proof -
  from serve_Success [OF assms] obtain feed where
    f: "read_feed (int (clock rt)) (JSON_parse rt) (targetUrl (clock rt) (sheetUrl req))
            (body (fetch rt (targetUrl (clock rt) (sheetUrl req)))) = Inr feed"
    and r: "reconcile (int (clock rt)) (purge_flag req) feed d = (counts, d')"
    by blast
  from reconcile_counts [OF r] read_feed_rows [OF f] read_feed_length [OF f]
  show ?thesis by simp
qed

theorem totalRows_counts_all_feed_rows_witness:
  "\<exists>counts d'. serve demo_runtime demo_request empty_db = (Success counts, d') \<and>
     totalRows counts = 2 \<and> inserted counts + updated counts = 1"
proof -
  from demo_serve obtain counts d' where s: "serve demo_runtime demo_request empty_db = (Success counts, d')"
    by blast
  have u: "targetUrl (clock demo_runtime) (sheetUrl demo_request) =
      targetUrl 0 (Some (js ''https://opensheet.elk.sh/1U3/1''))"
    by (simp add: demo_runtime_def demo_request_def)
  have b: "body (fetch demo_runtime x) = []" for x
    by (simp add: demo_runtime_def demo_body_def)
  have p: "JSON_parse demo_runtime = demo_parse"
    by (simp add: demo_runtime_def)
  from totalRows_counts_all_feed_rows [OF s]
  have "totalRows counts = 2 \<and> inserted counts + updated counts = 1"
    unfolding u b p demo_feed_rows by simp
  with s show ?thesis by blast
qed

section \<open>What a run keeps\<close>

lemma reconcile_rows:
  assumes r: "reconcile now p feed d = (counts, d')" and od': "od' \<in> set (orders d')"
  shows "(\<exists>od \<in> set (orders d). frame od' = frame od) \<or>
         (\<exists>k r. r \<in> set (fst feed) \<and> frame od' = frame (new_order now (k, r)))"
proof -
  let ?m = "existingMap d"
  let ?new = "filter (\<lambda>r. \<not> has ?m (rec_sheet_row_id r)) (fst feed)"
  let ?upd = "filter (\<lambda>r. has ?m (rec_sheet_row_id r)) (fst feed)"
  let ?d2 = "apply_updates now ?upd (insert_orders now ?new d)"
  have "od' \<in> set (orders ?d2)"
  proof (cases p)
    case True
    with r have "d' = snd (run_purge ?m (fst feed) ?d2)"
      by (simp only: reconcile_eq if_True prod.inject)
    then have "orders d' = filter (\<lambda>od. \<not> neq_source (js ''google_sheet'') od \<and>
        \<not> in_sheet_row_id (staleIds_of ?m (fst feed)) od) (orders ?d2)"
      unfolding run_purge_result by simp
    with od' show ?thesis by simp
  next
    case False
    with r have "d' = ?d2"
      by (simp only: reconcile_eq if_False prod.inject)
    with od' show ?thesis by simp
  qed
  from before_purge_rows [OF this] show ?thesis
  proof
    assume "\<exists>od \<in> set (orders d). od' = row_after now ?upd od"
    then show ?thesis by (auto simp: frame_row_after)
  next
    assume "\<exists>k r. r \<in> set ?new \<and> od' = row_after now ?upd (new_order now (k, r))"
    then obtain k r where "r \<in> set ?new" "od' = row_after now ?upd (new_order now (k, r))" by blast
    then have "r \<in> set (fst feed) \<and> frame od' = frame (new_order now (k, r))"
      by (simp add: frame_row_after)
    then show ?thesis by blast
  qed
qed

text \<open>
  C5. The update of a run names the client name, the requirement text, the price, the due
  date, the raw payload, the source tag and the update time, and nothing else: \<open>frame\<close>
  collects every other column, among them status, assignee, the two workflow timestamps and
  the deliverable, and the update leaves it as it was. So after a run each persisted order
  either has the key and the frame of an order that was there before, or it is a fresh
  insert; and without the purge every order that was there before is still there, in its
  place, with its frame. A taken order keeps its status and its assignee when the sheet
  changes its description.
\<close>

theorem sync_update_keeps_workflow_fields:
  assumes "reconcile now p feed d = (counts, d')"
  shows "(\<forall>od' \<in> set (orders d').
            (\<exists>od \<in> set (orders d). frame od' = frame od) \<or>
            (\<exists>k r. r \<in> set (fst feed) \<and> frame od' = frame (new_order now (k, r)))) \<and>
         (\<not> p \<longrightarrow> map frame (take (length (orders d)) (orders d')) = map frame (orders d)) \<and>
         frame (update_record now r od) = frame od"
proof (intro conjI ballI impI)
  fix od'
  assume "od' \<in> set (orders d')"
  with assms show "(\<exists>od \<in> set (orders d). frame od' = frame od) \<or>
            (\<exists>k r. r \<in> set (fst feed) \<and> frame od' = frame (new_order now (k, r)))"
    by (rule reconcile_rows)
next
  assume "\<not> p"
  with assms have "reconcile now False feed d = (counts, d')" by simp
  from no_purge_postcondition [OF this]
  show "map frame (take (length (orders d)) (orders d')) = map frame (orders d)" by blast
next
  show "frame (update_record now r od) = frame od"
    by (simp add: frame_def update_record_def)
qed

lemma has_taken: "has (existingMap taken_db) (js ''t1'')"
  unfolding has_existingMap by (simp add: taken_db_def taken_order_def js_def)

lemma taken_reconcile:
  "reconcile 9 False ([changed_record], 1) taken_db =
     (\<lparr>inserted = 0, updated = 1, purged = 0, totalRows = 1\<rparr>,
      taken_db\<lparr>orders := [row_after 9 [changed_record] taken_order]\<rparr>)"
proof -
  have h: "has (existingMap taken_db) (rec_sheet_row_id changed_record)"
    using has_taken by (simp add: changed_record_def)
  have "apply_updates 9 [changed_record] taken_db =
      taken_db\<lparr>orders := [row_after 9 [changed_record] taken_order]\<rparr>"
    by (simp add: apply_updates_def update_where_def row_after_def taken_db_def)
  then show ?thesis
    by (simp add: reconcile_eq h insert_orders_Nil)
qed

theorem sync_update_keeps_workflow_fields_witness:
  "\<exists>counts od'. reconcile 9 False ([changed_record], 1) taken_db = (counts, taken_db\<lparr>orders := [od']\<rparr>) \<and>
     status od' = js ''taken'' \<and> taken_by od' = Some 42 \<and> taken_at od' = Some 5 \<and>
     requirement_text taken_order = js ''Reel'' \<and>
     requirement_text od' = js ''Reel of 30 seconds''"
proof -
  let ?od' = "row_after 9 [changed_record] taken_order"
  note t = sync_update_keeps_workflow_fields [OF taken_reconcile, of changed_record taken_order]
  from t have "map frame (take (length (orders taken_db)) (orders (taken_db\<lparr>orders := [?od']\<rparr>))) =
      map frame (orders taken_db)"
    by blast
  then have "frame ?od' = frame taken_order"
    by (simp add: taken_db_def)
  then have "status ?od' = js ''taken'' \<and> taken_by ?od' = Some 42 \<and> taken_at ?od' = Some 5"
    by (simp add: frame_def taken_order_def)
  moreover have "requirement_text ?od' = js ''Reel of 30 seconds''"
    by (simp add: row_after_def eq_sheet_row_id_def update_record_def taken_order_def changed_record_def)
  moreover have "requirement_text taken_order = js ''Reel''"
    by (simp add: taken_order_def)
  ultimately show ?thesis using taken_reconcile by blast
qed

section \<open>The purge\<close>

lemma matched_row_survives:
  assumes r: "reconcile now p feed d = (counts, d')"
    and od: "od \<in> set (orders d)"
    and rr: "rr \<in> set (fst feed)" "sheet_row_id od = Some (rec_sheet_row_id rr)" "rec_sheet_row_id rr \<noteq> []"
  shows "\<exists>od' \<in> set (orders d'). frame od' = frame od"
proof -
  let ?m = "existingMap d"
  let ?new = "filter (\<lambda>r. \<not> has ?m (rec_sheet_row_id r)) (fst feed)"
  let ?upd = "filter (\<lambda>r. has ?m (rec_sheet_row_id r)) (fst feed)"
  let ?d2 = "apply_updates now ?upd (insert_orders now ?new d)"
  let ?od' = "row_after now ?upd od"
  from od rr have "has ?m (rec_sheet_row_id rr)"
    unfolding has_existingMap by blast
  with rr have inupd: "rr \<in> set ?upd" by simp
  have in2: "?od' \<in> set (orders ?d2)"
    using od by (simp add: orders_apply_updates orders_insert_orders)
  have "?od' \<in> set (orders d')"
  proof (cases p)
    case False
    with r have "d' = ?d2"
      by (simp only: reconcile_eq if_False prod.inject)
    with in2 show ?thesis by simp
  next
    case True
    with r have "d' = snd (run_purge ?m (fst feed) ?d2)"
      by (simp only: reconcile_eq if_True prod.inject)
    then have o: "orders d' = filter (\<lambda>od. \<not> neq_source (js ''google_sheet'') od \<and>
        \<not> in_sheet_row_id (staleIds_of ?m (fst feed)) od) (orders ?d2)"
      unfolding run_purge_result by simp
    from source_row_after_matched [OF inupd rr(2)]
    have s: "\<not> neq_source (js ''google_sheet'') ?od'"
      by (simp add: neq_source_def)
    from rr have "rec_sheet_row_id rr \<notin> set (staleIds_of ?m (fst feed))"
      unfolding set_staleIds_existingMap by blast
    with rr have "\<not> in_sheet_row_id (staleIds_of ?m (fst feed)) ?od'"
      by (simp add: in_sheet_row_id_def sheet_row_id_row_after)
    with s in2 show ?thesis unfolding o by simp
  qed
  then show ?thesis using frame_row_after [of now ?upd od] by blast
qed

lemma new_record_persisted:
  assumes r: "reconcile now p feed d = (counts, d')"
    and rr: "rr \<in> set (fst feed)" "\<not> has (existingMap d) (rec_sheet_row_id rr)"
      "rec_source rr = js ''google_sheet''"
  shows "\<exists>od' \<in> set (orders d'). sheet_row_id od' = Some (rec_sheet_row_id rr)"
proof -
  let ?m = "existingMap d"
  let ?new = "filter (\<lambda>r. \<not> has ?m (rec_sheet_row_id r)) (fst feed)"
  let ?upd = "filter (\<lambda>r. has ?m (rec_sheet_row_id r)) (fst feed)"
  let ?d2 = "apply_updates now ?upd (insert_orders now ?new d)"
  from rr have "rr \<in> set ?new" by simp
  then obtain k where k: "(k, rr) \<in> set (List.enumerate (next_uuid d) ?new)"
    by (metis in_set_conv_nth length_enumerate nth_enumerate_eq)
  let ?od' = "row_after now ?upd (new_order now (k, rr))"
  from k have in2: "?od' \<in> set (orders ?d2)"
    by (auto simp: orders_apply_updates orders_insert_orders)
  have id: "sheet_row_id ?od' = Some (rec_sheet_row_id rr)"
    by (simp add: sheet_row_id_row_after sheet_row_id_new_order)
  have "?od' \<in> set (orders d')"
  proof (cases p)
    case False
    with r have "d' = ?d2"
      by (simp only: reconcile_eq if_False prod.inject)
    with in2 show ?thesis by simp
  next
    case True
    with r have "d' = snd (run_purge ?m (fst feed) ?d2)"
      by (simp only: reconcile_eq if_True prod.inject)
    then have o: "orders d' = filter (\<lambda>od. \<not> neq_source (js ''google_sheet'') od \<and>
        \<not> in_sheet_row_id (staleIds_of ?m (fst feed)) od) (orders ?d2)"
      unfolding run_purge_result by simp
    have "source (new_order now (k, rr)) = Some (js ''google_sheet'')"
      using rr by (simp add: new_order_def)
    with source_row_after_cases [of now ?upd "new_order now (k, rr)"]
    have s: "\<not> neq_source (js ''google_sheet'') ?od'"
      by (auto simp: neq_source_def)
    from rr have "rec_sheet_row_id rr \<notin> set (staleIds_of ?m (fst feed))"
      unfolding set_staleIds_existingMap by blast
    with id have "\<not> in_sheet_row_id (staleIds_of ?m (fst feed)) ?od'"
      by (simp add: in_sheet_row_id_def)
    with s in2 show ?thesis unfolding o by simp
  qed
  with id show ?thesis by blast
qed

lemma feed_ids_persisted:
  assumes r: "reconcile now p feed d = (counts, d')"
    and rr: "rr \<in> set (fst feed)" "rec_sheet_row_id rr \<noteq> []" "rec_source rr = js ''google_sheet''"
  shows "\<exists>od' \<in> set (orders d'). sheet_row_id od' = Some (rec_sheet_row_id rr)"
proof (cases "has (existingMap d) (rec_sheet_row_id rr)")
  case False
  with r rr show ?thesis by (intro new_record_persisted)
next
  case True
  then obtain od where od: "od \<in> set (orders d)" "sheet_row_id od = Some (rec_sheet_row_id rr)"
    unfolding has_existingMap by blast
  from matched_row_survives [OF r od(1) rr(1) od(2) rr(2)]
  obtain od' where "od' \<in> set (orders d')" "frame od' = frame od" by blast
  with od show ?thesis by (auto simp: frame_def)
qed

text \<open>
  C7, as amended. With the purge flag, a run leaves no order whose source is a value other
  than the tag of the feed, and no order with a non-empty identity that the parse of this run
  does not hold; an order whose identity is null or empty is never in the map of existing
  orders, so the purge by identity does not reach it, and an order with a null source does
  not pass the comparison of the first deletion. An order whose identity the parse holds is
  kept. The deletions by identity go through the stale identities in slices of at most 1000,
  each slice one deletion. With or without the flag, \<open>purged\<close> is the number of rows
  deleted, and without the flag it is zero and every order stays.
\<close>

theorem purge_removes_foreign_and_stale_rows:
  assumes "reconcile now p feed d = (counts, d')"
  shows "(p \<longrightarrow>
            (\<forall>od \<in> set (orders d'). source od = None \<or> source od = Some (js ''google_sheet'')) \<and>
            (\<forall>od \<in> set (orders d'). \<forall>i. sheet_row_id od = Some i \<and> i \<noteq> [] \<longrightarrow>
                i \<in> rec_sheet_row_id ` set (fst feed))) \<and>
         (\<forall>od \<in> set (orders d). \<forall>r \<in> set (fst feed).
             sheet_row_id od = Some (rec_sheet_row_id r) \<and> rec_sheet_row_id r \<noteq> [] \<longrightarrow>
               (\<exists>od' \<in> set (orders d'). frame od' = frame od)) \<and>
         (\<not> p \<longrightarrow> purged counts = 0 \<and>
            map frame (take (length (orders d)) (orders d')) = map frame (orders d)) \<and>
         purged counts + length (orders d') = length (orders d) + inserted counts \<and>
         run_purge m toInsert d0 =
           foldl delete_batch (delete_where (neq_source (js ''google_sheet'')) d0)
             (batches (staleIds_of m toInsert) 0) \<and>
         (\<forall>b \<in> set (batches ids 0). b \<noteq> [] \<and> length b \<le> 1000) \<and>
         concat (batches ids 0) = ids"
proof -
  have a: "(\<forall>od \<in> set (orders d'). source od = None \<or> source od = Some (js ''google_sheet'')) \<and>
            (\<forall>od \<in> set (orders d'). \<forall>i. sheet_row_id od = Some i \<and> i \<noteq> [] \<longrightarrow>
                i \<in> rec_sheet_row_id ` set (fst feed))" if p
  proof -
    from that assms have "reconcile now True feed d = (counts, d')" by simp
    from purge_postcondition [OF this] show ?thesis by blast
  qed
  have b: "\<forall>od \<in> set (orders d). \<forall>r \<in> set (fst feed).
             sheet_row_id od = Some (rec_sheet_row_id r) \<and> rec_sheet_row_id r \<noteq> [] \<longrightarrow>
               (\<exists>od' \<in> set (orders d'). frame od' = frame od)"
    using matched_row_survives [OF assms] by blast
  have c: "purged counts = 0 \<and>
            map frame (take (length (orders d)) (orders d')) = map frame (orders d)" if "\<not> p"
  proof -
    from that assms have "reconcile now False feed d = (counts, d')" by simp
    from no_purge_postcondition [OF this] show ?thesis by blast
  qed
  have e: "purged counts + length (orders d') = length (orders d) + inserted counts"
  proof (cases p)
    case True
    with assms have "reconcile now True feed d = (counts, d')" by simp
    from purge_postcondition [OF this] show ?thesis by blast
  next
    case False
    with assms have "reconcile now False feed d = (counts, d')" by simp
    from no_purge_postcondition [OF this] show ?thesis by simp
  qed
  have g: "\<forall>b \<in> set (batches ids 0). b \<noteq> [] \<and> length b \<le> 1000"
    using batches_bounded [of _ ids 0] by (auto simp: chunk_def)
  have h: "concat (batches ids 0) = ids"
    by (simp add: concat_batches)
  from a b c e g h run_purge_batches [of m toInsert d0] show ?thesis
    by blast
qed

lemma stray_run:
  "serve empty_runtime purge_request stray_db =
     (Success \<lparr>inserted = 0, updated = 0, purged = 0, totalRows = 0\<rparr>, stray_db)"
proof -
  have f: "read_feed 0 empty_parse (targetUrl 0 (Some (js ''https://opensheet.elk.sh/1U3/1''))) [] = Inr ([], 0)"
    by (simp add: read_feed_def demo_url read_opensheet_def empty_parse_def List.map_filter_simps)
  have m: "existingMap stray_db = []"
    by (simp add: existingMap_def stray_db_def stray_order_def)
  have n: "\<not> neq_source (js ''google_sheet'') stray_order"
    by (simp add: neq_source_def stray_order_def taken_order_def)
  have k: "\<not> in_sheet_row_id [] od" for od
    by (cases "sheet_row_id od") (simp_all add: in_sheet_row_id_def)
  have r: "reconcile 0 True ([], 0) stray_db =
      (\<lparr>inserted = 0, updated = 0, purged = 0, totalRows = 0\<rparr>, stray_db)"
    unfolding reconcile_eq run_purge_result
    by (simp add: m insert_orders_Nil apply_updates_def staleIds_of_def)
       (simp add: stray_db_def n k)
  show ?thesis
    by (simp add: serve_def empty_runtime_def purge_request_def demo_body_def Let_def f r)
qed

text \<open>
  The claim as it stands fails for an order of the feed whose identity is the empty text: the
  sheet is empty, so no identity is in the parse, and the order survives the purge.
\<close>

theorem purge_keeps_row_of_empty_identity_counterexample:
  "serve empty_runtime purge_request stray_db =
     (Success \<lparr>inserted = 0, updated = 0, purged = 0, totalRows = 0\<rparr>, stray_db) \<and>
   purge_flag purge_request \<and>
   orders stray_db = [stray_order] \<and>
   source stray_order = Some (js ''google_sheet'') \<and>
   sheet_row_id stray_order = Some [] \<and>
   feed_rows (JSON_parse empty_runtime) (targetUrl (clock empty_runtime) (sheetUrl purge_request))
     (body (fetch empty_runtime (targetUrl (clock empty_runtime) (sheetUrl purge_request)))) = []"
proof -
  have u: "targetUrl (clock empty_runtime) (sheetUrl purge_request) =
      targetUrl 0 (Some (js ''https://opensheet.elk.sh/1U3/1''))"
    by (simp add: empty_runtime_def purge_request_def)
  have p: "JSON_parse empty_runtime = empty_parse"
    by (simp add: empty_runtime_def)
  have f: "feed_rows (JSON_parse empty_runtime) (targetUrl (clock empty_runtime) (sheetUrl purge_request))
     (body (fetch empty_runtime (targetUrl (clock empty_runtime) (sheetUrl purge_request)))) = []"
    unfolding u p by (simp add: feed_rows_def demo_url empty_parse_def)
  have g: "purge_flag purge_request"
    by (simp add: purge_request_def)
  have o: "orders stray_db = [stray_order]"
    by (simp add: stray_db_def)
  have s: "source stray_order = Some (js ''google_sheet'')"
    by (simp add: stray_order_def taken_order_def)
  have i: "sheet_row_id stray_order = Some []"
    by (simp add: stray_order_def)
  show ?thesis
    by (intro conjI stray_run g o s i f)
qed

lemma purge_reconcile:
  "\<exists>n. reconcile 9 True ([changed_record], 1) purge_db =
     (\<lparr>inserted = 0, updated = 1, purged = n, totalRows = 1\<rparr>,
      purge_db\<lparr>orders := [row_after 9 [changed_record] taken_order]\<rparr>)"
proof -
  have em: "existingMap purge_db = [(js ''t1'', js ''taken'', Some 42), (js ''old'', js ''available'', None)]"
    by (simp add: existingMap_def purge_db_def taken_order_def stale_order_def foreign_order_def js_def)
  have h: "has (existingMap purge_db) (rec_sheet_row_id changed_record)"
    by (simp add: em has_def changed_record_def)
  have st: "staleIds_of (existingMap purge_db) [changed_record] = [js ''old'']"
    by (simp add: em staleIds_of_def changed_record_def js_def)
  have ra: "row_after 9 [changed_record] stale_order = stale_order"
    "row_after 9 [changed_record] foreign_order = foreign_order"
    by (simp_all add: row_after_def eq_sheet_row_id_def stale_order_def foreign_order_def
        changed_record_def js_def)
  have d2: "apply_updates 9 [changed_record] purge_db =
      purge_db\<lparr>orders := [row_after 9 [changed_record] taken_order, stale_order, foreign_order]\<rparr>"
    using ra by (simp add: apply_updates_def update_where_def row_after_def purge_db_def)
  have k1: "\<not> neq_source (js ''google_sheet'') (row_after 9 [changed_record] taken_order)"
    using source_row_after_cases [of 9 "[changed_record]" taken_order]
    by (auto simp: neq_source_def taken_order_def)
  have k2: "\<not> in_sheet_row_id [js ''old''] (row_after 9 [changed_record] taken_order)"
    by (simp add: in_sheet_row_id_def sheet_row_id_row_after taken_order_def js_def)
  have k3: "in_sheet_row_id [js ''old''] stale_order"
    by (simp add: in_sheet_row_id_def stale_order_def)
  have k4: "neq_source (js ''google_sheet'') foreign_order"
    by (simp add: neq_source_def foreign_order_def js_def)
  show ?thesis
    unfolding reconcile_eq run_purge_result
    by (simp add: h insert_orders_Nil d2 st k1 k2 k3 k4)
qed

theorem purge_removes_foreign_and_stale_rows_witness:
  "\<exists>counts od' counts0 d0.
     reconcile 9 True ([changed_record], 1) purge_db = (counts, purge_db\<lparr>orders := [od']\<rparr>) \<and>
     length (orders purge_db) = 3 \<and> purged counts = 2 \<and>
     source od' = Some (js ''google_sheet'') \<and> sheet_row_id od' = Some (js ''t1'') \<and>
     reconcile 9 False ([changed_record], 1) taken_db = (counts0, d0) \<and> purged counts0 = 0 \<and>
     batches [js ''old''] 0 = [[js ''old'']]"
proof -
  let ?od' = "row_after 9 [changed_record] taken_order"
  from purge_reconcile obtain n where
    r: "reconcile 9 True ([changed_record], 1) purge_db =
     (\<lparr>inserted = 0, updated = 1, purged = n, totalRows = 1\<rparr>, purge_db\<lparr>orders := [?od']\<rparr>)"
    by blast
  note t = purge_removes_foreign_and_stale_rows [OF r, of _ _ _ "[js ''old'']"]
  from t have "purged \<lparr>inserted = 0, updated = 1, purged = n, totalRows = 1\<rparr> +
      length (orders (purge_db\<lparr>orders := [?od']\<rparr>)) =
      length (orders purge_db) + inserted \<lparr>inserted = 0, updated = 1, purged = n, totalRows = 1\<rparr>"
    by blast
  then have n: "n = 2" and l: "length (orders purge_db) = 3"
    by (simp_all add: purge_db_def)
  from t have "\<forall>od \<in> set (orders (purge_db\<lparr>orders := [?od']\<rparr>)).
      source od = None \<or> source od = Some (js ''google_sheet'')"
    by blast
  moreover have "source ?od' \<noteq> None"
    using source_row_after_cases [of 9 "[changed_record]" taken_order]
    by (auto simp: taken_order_def)
  ultimately have s: "source ?od' = Some (js ''google_sheet'')"
    by simp
  have i: "sheet_row_id ?od' = Some (js ''t1'')"
    by (simp add: sheet_row_id_row_after taken_order_def)
  from t have "concat (batches [js ''old''] 0) = [js ''old'']"
    and "\<forall>b \<in> set (batches [js ''old''] 0). b \<noteq> [] \<and> length b \<le> 1000"
    by blast+
  then have b: "batches [js ''old''] 0 = [[js ''old'']]"
    by (subst batches.simps, subst batches.simps) (simp add: chunk_def)
  from purge_removes_foreign_and_stale_rows [OF taken_reconcile]
  have "purged \<lparr>inserted = 0, updated = 1, purged = 0, totalRows = 1\<rparr> = 0"
    by simp
  with r n l s i b taken_reconcile show ?thesis
    by (intro exI [of _ "\<lparr>inserted = 0, updated = 1, purged = n, totalRows = 1\<rparr>"] exI [of _ ?od']
        exI [of _ "\<lparr>inserted = 0, updated = 1, purged = 0, totalRows = 1\<rparr>"]
        exI [of _ "taken_db\<lparr>orders := [?od']\<rparr>"]) simp
qed

section \<open>A second run on the same feed\<close>

lemma mapTimelineToDueDate_shift:
  "mapTimelineToDueDate now2 t = map_option (\<lambda>x. x + (now2 - now1)) (mapTimelineToDueDate now1 t)"
  by (simp add: mapTimelineToDueDate_def addDays_def Let_def split: option.splits)

lemma to_record_shift:
  "to_record now2 row name service desc budgetRaw timeline timestamp =
     map_option (shifted (now2 - now1)) (to_record now1 row name service desc budgetRaw timeline timestamp)"
  using mapTimelineToDueDate_shift [of now2 "Some timeline" now1]
  by (simp add: to_record_def Let_def shifted_def)

lemma map_filter_map_option:
  "List.map_filter (\<lambda>x. map_option g (h x)) xs = map g (List.map_filter h xs)"
  by (induction xs) (auto simp: List.map_filter_simps split: option.splits)

lemma opensheet_record_shift:
  "opensheet_record now2 = (\<lambda>row. map_option (shifted (now2 - now1)) (opensheet_record now1 row))"
  by (rule ext) (simp add: opensheet_record_def Let_def to_record_shift [of now2 _ _ _ _ _ _ _ now1])

lemma gviz_record_shift:
  "gviz_record now2 ci = (\<lambda>row. map_option (shifted (now2 - now1)) (gviz_record now1 ci row))"
  by (rule ext) (simp add: gviz_record_def Let_def to_record_shift [of now2 _ _ _ _ _ _ _ now1])

lemma read_feed_shift:
  assumes "read_feed now1 P url text = Inr feed1" "read_feed now2 P url text = Inr feed2"
  shows "fst feed2 = map (shifted (now2 - now1)) (fst feed1) \<and> snd feed2 = snd feed1"
proof (cases "includes_str url (js ''opensheet.elk.sh'')")
  case True
  with assms have a: "read_opensheet now1 P text = Inr feed1" "read_opensheet now2 P text = Inr feed2"
    by (simp_all add: read_feed_def)
  from read_opensheet_Inr [OF a(1)] obtain rs where
    rs: "P text = Some (JArray rs)" "snd feed1 = length rs" "fst feed1 = List.map_filter (opensheet_record now1) rs"
    by blast
  from read_opensheet_Inr [OF a(2)] rs(1) have
    "snd feed2 = length rs" "fst feed2 = List.map_filter (opensheet_record now2) rs"
    by auto
  with rs show ?thesis
    by (simp add: opensheet_record_shift [of now2 now1] map_filter_map_option)
next
  case False
  with assms have a: "read_gviz now1 P text = Inr feed1" "read_gviz now2 P text = Inr feed2"
    by (simp_all add: read_feed_def)
  from read_gviz_Inr [OF a(1)] obtain g where
    g: "parseGvizJsonp P text = Inr (JTable g)" "snd feed1 = length (rows g)"
      "fst feed1 = List.map_filter (gviz_record now1 (colIndex (cols g))) (rows g)"
    by blast
  from read_gviz_Inr [OF a(2)] g(1) have
    "snd feed2 = length (rows g)" "fst feed2 = List.map_filter (gviz_record now2 (colIndex (cols g))) (rows g)"
    by auto
  with g show ?thesis
    by (simp add: gviz_record_shift [of now2 _ now1] map_filter_map_option)
qed

lemma compute_sheet_row_id_not_empty:
  "compute_sheet_row_id timestamp fullName service desc budgetRaw timeline \<noteq> []"
  by (simp add: compute_sheet_row_id_def djb2Hash_def toString_radix_not_empty)

lemma to_record_Some:
  "to_record now row name service desc budgetRaw timeline timestamp = Some r \<Longrightarrow>
   rec_sheet_row_id r \<noteq> [] \<and> rec_source r = js ''google_sheet'' \<and> rec_status r = js ''available''"
  by (auto simp: to_record_def Let_def compute_sheet_row_id_not_empty split: if_splits)

lemma map_filter_in: "r \<in> set (List.map_filter h xs) \<Longrightarrow> \<exists>x \<in> set xs. h x = Some r"
  by (induction xs) (auto simp: List.map_filter_simps split: option.splits)

lemma read_feed_records:
  assumes "read_feed now P url text = Inr feed" "r \<in> set (fst feed)"
  shows "rec_sheet_row_id r \<noteq> [] \<and> rec_source r = js ''google_sheet'' \<and> rec_status r = js ''available''"
proof (cases "includes_str url (js ''opensheet.elk.sh'')")
  case True
  with assms have "read_opensheet now P text = Inr feed" by (simp add: read_feed_def)
  from read_opensheet_Inr [OF this] obtain rs where "fst feed = List.map_filter (opensheet_record now) rs"
    by blast
  with assms(2) have "r \<in> set (List.map_filter (opensheet_record now) rs)"
    by simp
  from map_filter_in [OF this] obtain row where "opensheet_record now row = Some r" by blast
  then show ?thesis
    unfolding opensheet_record_def Let_def by (rule to_record_Some)
next
  case False
  with assms have "read_gviz now P text = Inr feed" by (simp add: read_feed_def)
  from read_gviz_Inr [OF this] obtain g :: GvizTable where
    "fst feed = List.map_filter (gviz_record now (colIndex (cols g))) (rows g)"
    by blast
  with assms(2) have "r \<in> set (List.map_filter (gviz_record now (colIndex (cols g))) (rows g))"
    by simp
  from map_filter_in [OF this] obtain row where "gviz_record now (colIndex (cols g)) row = Some r" by blast
  then show ?thesis
    unfolding gviz_record_def Let_def by (rule to_record_Some)
qed

lemma rec_sheet_row_id_shifted: "rec_sheet_row_id (shifted k r) = rec_sheet_row_id r"
  by (simp add: shifted_def)

text \<open>
  C6, as amended. When the job runs twice on the same fetched feed, every identity of the
  second parse is in the map of existing orders that the second run builds, so its new
  partition is empty: it inserts nothing and updates once for each record. The records of
  the second run have the client name, the requirement text, the price, the raw payload and
  the identity of those of the first; their due dates are those of the first moved by the
  time between the two runs, since each run counts the days from its own clock.
\<close>

theorem second_sync_inserts_nothing:
  assumes f1: "read_feed now1 P url text = Inr feed1"
    and f2: "read_feed now2 P url text = Inr feed2"
    and r1: "reconcile now1 p1 feed1 d = (c1, d1)"
    and r2: "reconcile now2 p2 feed2 d1 = (c2, d2)"
  shows "inserted c2 = 0 \<and> updated c2 = length (fst feed2) \<and>
         (\<forall>r \<in> set (fst feed2). has (existingMap d1) (rec_sheet_row_id r)) \<and>
         fst feed2 = map (shifted (now2 - now1)) (fst feed1) \<and>
         map rec_client_name (fst feed2) = map rec_client_name (fst feed1) \<and>
         map rec_requirement_text (fst feed2) = map rec_requirement_text (fst feed1) \<and>
         map rec_price (fst feed2) = map rec_price (fst feed1) \<and>
         map rec_raw_sheet_json (fst feed2) = map rec_raw_sheet_json (fst feed1) \<and>
         map rec_sheet_row_id (fst feed2) = map rec_sheet_row_id (fst feed1) \<and>
         map rec_due_date (fst feed2) =
           map (\<lambda>r. map_option (\<lambda>t. t + (now2 - now1)) (rec_due_date r)) (fst feed1)"
proof -
  from read_feed_shift [OF f1 f2] have sh: "fst feed2 = map (shifted (now2 - now1)) (fst feed1)"
    by blast
  have h: "has (existingMap d1) (rec_sheet_row_id r)" if "r \<in> set (fst feed2)" for r
  proof -
    from that sh obtain r0 where r0: "r0 \<in> set (fst feed1)" "r = shifted (now2 - now1) r0"
      by auto
    from read_feed_records [OF f1 r0(1)] have "rec_sheet_row_id r0 \<noteq> []" "rec_source r0 = js ''google_sheet''"
      by blast+
    with feed_ids_persisted [OF r1 r0(1)] r0(2) show ?thesis
      unfolding has_existingMap by (simp add: rec_sheet_row_id_shifted)
  qed
  then have new: "filter (\<lambda>r. \<not> has (existingMap d1) (rec_sheet_row_id r)) (fst feed2) = []"
    and upd: "filter (\<lambda>r. has (existingMap d1) (rec_sheet_row_id r)) (fst feed2) = fst feed2"
    by (simp_all add: filter_empty_conv)
  from r2 have "inserted c2 = 0 \<and> updated c2 = length (fst feed2)"
    unfolding reconcile_eq new upd by auto
  moreover have "map f (fst feed2) = map f (fst feed1)"
    if "\<And>r. f (shifted (now2 - now1) r) = f r" for f :: "sheet_record \<Rightarrow> 'a"
    unfolding sh using that by simp
  note this [of rec_client_name] this [of rec_requirement_text] this [of rec_price]
    this [of rec_raw_sheet_json] this [of rec_sheet_row_id]
  moreover have "map rec_due_date (fst feed2) =
           map (\<lambda>r. map_option (\<lambda>t. t + (now2 - now1)) (rec_due_date r)) (fst feed1)"
    unfolding sh by (simp add: shifted_def)
  ultimately show ?thesis using h sh by (simp add: shifted_def)
qed

lemma demo_target: "includes_str (targetUrl k (sheetUrl demo_request)) (js ''opensheet.elk.sh'')"
proof -
  have "targetUrl k (sheetUrl demo_request) =
      js ''https://'' @ js ''opensheet.elk.sh'' @ (js ''/1U3/1?cacheBust='' @ toString_radix 10 k)"
    by (simp add: targetUrl_def demo_request_def js_def starts_with_def)
  then show ?thesis
    unfolding includes_str_iff by blast
qed

lemma demo_feed_at:
  "\<exists>r. read_feed now demo_parse (targetUrl k (sheetUrl demo_request)) [] = Inr ([r], 2) \<and>
       opensheet_record now [(L_service, js ''Logo''), (L_timeline, js ''urgent'')] = Some r"
proof -
  from demo_not_blank
  have "opensheet_record now [(L_service, js ''Logo''), (L_timeline, js ''urgent'')] \<noteq> None"
    by (simp add: opensheet_record_None_iff)
  then obtain r where
    r: "opensheet_record now [(L_service, js ''Logo''), (L_timeline, js ''urgent'')] = Some r"
    by auto
  from demo_blank have n: "opensheet_record now [(L_name, js ''Nobody'')] = None"
    by (simp add: opensheet_record_None_iff)
  have "read_feed now demo_parse (targetUrl k (sheetUrl demo_request)) [] = Inr ([r], 2)"
    by (simp add: read_feed_def demo_target read_opensheet_def demo_parse_def demo_rows_def
        List.map_filter_simps r n)
  with r show ?thesis by blast
qed

lemma demo_timeline:
  "String_or_empty (or_else (map_of [(L_service, js ''Logo''), (L_timeline, js ''urgent'')] L_timeline)
     (map_of [(L_service, js ''Logo''), (L_timeline, js ''urgent'')] (js ''Timeline''))) = js ''urgent''"
  by (simp add: L_service_def L_timeline_def or_else_def String_or_empty_def trim_def is_space_def js_def)

lemma to_record_due_date:
  "to_record now row name service desc budgetRaw timeline timestamp = Some r \<Longrightarrow>
   rec_due_date r = mapTimelineToDueDate now (Some timeline)"
  by (auto simp: to_record_def Let_def split: if_splits)

lemma demo_due_date:
  assumes "opensheet_record now [(L_service, js ''Logo''), (L_timeline, js ''urgent'')] = Some r"
  shows "rec_due_date r = Some (now + 259200000)"
proof -
  have m: "mapTimelineToDueDate now (Some (js ''urgent'')) = Some (now + 259200000)"
    by (simp add: mapTimelineToDueDate_def addDays_def js_def toLowerCase_def lower_unit_def starts_with_def)
  from assms have "rec_due_date r = mapTimelineToDueDate now (Some (js ''urgent''))"
    unfolding opensheet_record_def Let_def demo_timeline by (rule to_record_due_date)
  with m show ?thesis by simp
qed

lemma existingMap_empty_db: "existingMap empty_db = []"
  by (simp add: existingMap_def empty_db_def)

lemma has_empty_db: "has (existingMap empty_db) k = False"
  by (simp add: existingMap_empty_db has_def)

lemma reconcile_empty_db:
  "reconcile now False (recs, n) empty_db =
     (\<lparr>inserted = length recs, updated = 0, purged = 0, totalRows = n\<rparr>,
      empty_db\<lparr>orders := map (new_order now) (List.enumerate 0 recs), next_uuid := length recs\<rparr>)"
proof -
  have a: "apply_updates now [] d = d" for d
    by (simp add: apply_updates_def)
  have i: "insert_orders now recs empty_db =
      empty_db\<lparr>orders := map (new_order now) (List.enumerate 0 recs), next_uuid := length recs\<rparr>"
    by (simp add: insert_orders_def empty_db_def)
  show ?thesis
    unfolding reconcile_eq has_empty_db by (simp add: a i)
qed

lemma first_run:
  "\<exists>r. opensheet_record 0 [(L_service, js ''Logo''), (L_timeline, js ''urgent'')] = Some r \<and>
       serve demo_runtime demo_request empty_db =
         (Success \<lparr>inserted = 1, updated = 0, purged = 0, totalRows = 2\<rparr>,
          empty_db\<lparr>orders := [new_order 0 (0, r)], next_uuid := 1\<rparr>)"
proof -
  from demo_feed_at [of 0 0] obtain r where
    f: "read_feed 0 demo_parse (targetUrl 0 (sheetUrl demo_request)) [] = Inr ([r], 2)"
    and r: "opensheet_record 0 [(L_service, js ''Logo''), (L_timeline, js ''urgent'')] = Some r"
    by blast
  have u: "clock demo_runtime = 0"
    by (simp add: demo_runtime_def)
  have s: "is_options demo_request = False" "has_env demo_runtime = True" "purge_flag demo_request = False"
    "JSON_parse demo_runtime = demo_parse" "int 0 = 0"
    "ok (fetch demo_runtime x) = True" "body (fetch demo_runtime x) = []" for x
    by (simp_all add: demo_runtime_def demo_request_def demo_body_def)
  have "serve demo_runtime demo_request empty_db =
         (Success \<lparr>inserted = 1, updated = 0, purged = 0, totalRows = 2\<rparr>,
          empty_db\<lparr>orders := [new_order 0 (0, r)], next_uuid := 1\<rparr>)"
    unfolding serve_def Let_def u s f
    by (simp add: reconcile_empty_db enumerate_simps)
  with r show ?thesis by blast
qed

lemma reconcile_single_match:
  assumes o: "orders d1 = [x]"
    and i: "sheet_row_id x = Some (rec_sheet_row_id r1)" "rec_sheet_row_id r1 \<noteq> []"
  shows "reconcile now False ([r1], n) d1 =
     (\<lparr>inserted = 0, updated = 1, purged = 0, totalRows = n\<rparr>,
      d1\<lparr>orders := [(update_record now r1 x)\<lparr>updated_at := Some now\<rparr>]\<rparr>)"
proof -
  have h: "has (existingMap d1) (rec_sheet_row_id r1) = True"
    unfolding has_existingMap using o i by simp
  have a: "apply_updates now [r1] d1 = d1\<lparr>orders := [(update_record now r1 x)\<lparr>updated_at := Some now\<rparr>]\<rparr>"
    using o i by (simp add: apply_updates_def update_where_def eq_sheet_row_id_def)
  show ?thesis
    unfolding reconcile_eq fst_conv snd_conv filter.simps h
    by (simp add: insert_orders_Nil a)
qed

lemma second_run:
  assumes r0: "opensheet_record 0 [(L_service, js ''Logo''), (L_timeline, js ''urgent'')] = Some r0"
    and o: "orders d1 = [new_order 0 (0, r0)]"
  shows "\<exists>r1. opensheet_record 1 [(L_service, js ''Logo''), (L_timeline, js ''urgent'')] = Some r1 \<and>
       serve later_runtime demo_request d1 =
         (Success \<lparr>inserted = 0, updated = 1, purged = 0, totalRows = 2\<rparr>,
          d1\<lparr>orders := [(update_record 1 r1 (new_order 0 (0, r0)))\<lparr>updated_at := Some 1\<rparr>]\<rparr>)"
proof -
  from demo_feed_at [of 1 1] obtain r1 where
    f: "read_feed 1 demo_parse (targetUrl 1 (sheetUrl demo_request)) [] = Inr ([r1], 2)"
    and r1: "opensheet_record 1 [(L_service, js ''Logo''), (L_timeline, js ''urgent'')] = Some r1"
    by blast
  from r1 have "r1 = shifted (1 - 0) r0"
    unfolding opensheet_record_shift [of 1 0] using r0 by simp
  then have id: "rec_sheet_row_id r1 = rec_sheet_row_id r0"
    by (simp add: rec_sheet_row_id_shifted)
  from r0 have ne: "rec_sheet_row_id r0 \<noteq> []"
    unfolding opensheet_record_def Let_def by (blast dest: to_record_Some)
  have u: "clock later_runtime = 1"
    by (simp add: later_runtime_def)
  have s: "is_options demo_request = False" "has_env later_runtime = True" "purge_flag demo_request = False"
    "JSON_parse later_runtime = demo_parse" "int 1 = 1"
    "ok (fetch later_runtime x) = True" "body (fetch later_runtime x) = []" for x
    by (simp_all add: later_runtime_def demo_runtime_def demo_request_def demo_body_def)
  have rc: "reconcile 1 False ([r1], 2) d1 =
      (\<lparr>inserted = 0, updated = 1, purged = 0, totalRows = 2\<rparr>,
       d1\<lparr>orders := [(update_record 1 r1 (new_order 0 (0, r0)))\<lparr>updated_at := Some 1\<rparr>]\<rparr>)"
    using o ne by (intro reconcile_single_match) (simp_all add: sheet_row_id_new_order id)
  have "serve later_runtime demo_request d1 =
         (Success \<lparr>inserted = 0, updated = 1, purged = 0, totalRows = 2\<rparr>,
          d1\<lparr>orders := [(update_record 1 r1 (new_order 0 (0, r0)))\<lparr>updated_at := Some 1\<rparr>]\<rparr>)"
    unfolding serve_def Let_def u s f
    by (simp add: rc)
  with r1 show ?thesis by blast
qed

theorem second_sync_inserts_nothing_witness:
  "\<exists>feed1 feed2 c1 d1 c2 d2.
     read_feed 0 demo_parse (targetUrl 0 (sheetUrl demo_request)) [] = Inr feed1 \<and>
     read_feed 1 demo_parse (targetUrl 0 (sheetUrl demo_request)) [] = Inr feed2 \<and>
     reconcile 0 False feed1 empty_db = (c1, d1) \<and>
     reconcile 1 False feed2 d1 = (c2, d2) \<and>
     inserted c1 = 1 \<and> inserted c2 = 0 \<and> updated c2 = 1 \<and>
     map rec_due_date (fst feed1) = [Some 259200000] \<and>
     map rec_due_date (fst feed2) = [Some 259200001]"
proof -
  from demo_feed_at [of 0 0] obtain r0 where
    f1: "read_feed 0 demo_parse (targetUrl 0 (sheetUrl demo_request)) [] = Inr ([r0], 2)"
    and r0: "opensheet_record 0 [(L_service, js ''Logo''), (L_timeline, js ''urgent'')] = Some r0"
    by blast
  from demo_feed_at [of 1 0] obtain r1 where
    f2: "read_feed 1 demo_parse (targetUrl 0 (sheetUrl demo_request)) [] = Inr ([r1], 2)"
    by blast
  obtain c1 d1 where x1: "reconcile 0 False ([r0], 2) empty_db = (c1, d1)"
    by (cases "reconcile 0 False ([r0], 2) empty_db")
  obtain c2 d2 where x2: "reconcile 1 False ([r1], 2) d1 = (c2, d2)"
    by (cases "reconcile 1 False ([r1], 2) d1")
  note t = second_sync_inserts_nothing [OF f1 f2 x1 x2]
  from x1 have i1: "inserted c1 = 1"
    unfolding reconcile_empty_db by auto
  from demo_due_date [OF r0] have due1: "map rec_due_date (fst ([r0], 2 :: nat)) = [Some 259200000]"
    by simp
  from t have "map rec_due_date (fst ([r1], 2 :: nat)) =
      map (\<lambda>r. map_option (\<lambda>t. t + (1 - 0)) (rec_due_date r)) (fst ([r0], 2 :: nat))"
    by blast
  with demo_due_date [OF r0] have due2: "map rec_due_date (fst ([r1], 2 :: nat)) = [Some 259200001]"
    by simp
  from t have "inserted c2 = 0 \<and> updated c2 = 1"
    by simp
  with f1 f2 x1 x2 i1 due1 due2 show ?thesis
    by (intro exI [of _ "([r0], 2)"] exI [of _ "([r1], 2)"] exI [of _ c1] exI [of _ d1]
        exI [of _ c2] exI [of _ d2]) simp
qed

text \<open>
  The claim as it stands fails for the due date. The two runs read the same sheet, one
  millisecond apart, and the second writes a due date that the first did not write.
\<close>

theorem second_sync_due_date_counterexample:
  "map due_date (orders (snd (serve demo_runtime demo_request empty_db))) = [Some 259200000] \<and>
   map due_date (orders (snd (serve later_runtime demo_request
      (snd (serve demo_runtime demo_request empty_db))))) = [Some 259200001] \<and>
   JSON_parse later_runtime = JSON_parse demo_runtime \<and>
   fetch later_runtime = fetch demo_runtime"
proof -
  from first_run obtain r0 where
    r0: "opensheet_record 0 [(L_service, js ''Logo''), (L_timeline, js ''urgent'')] = Some r0"
    and s1: "serve demo_runtime demo_request empty_db =
         (Success \<lparr>inserted = 1, updated = 0, purged = 0, totalRows = 2\<rparr>,
          empty_db\<lparr>orders := [new_order 0 (0, r0)], next_uuid := 1\<rparr>)"
    by blast
  let ?d1 = "snd (serve demo_runtime demo_request empty_db)"
  have o: "orders ?d1 = [new_order 0 (0, r0)]"
    unfolding s1 by simp
  from second_run [OF r0 o] obtain r1 where
    r1: "opensheet_record 1 [(L_service, js ''Logo''), (L_timeline, js ''urgent'')] = Some r1"
    and s2: "serve later_runtime demo_request ?d1 =
         (Success \<lparr>inserted = 0, updated = 1, purged = 0, totalRows = 2\<rparr>,
          ?d1\<lparr>orders := [(update_record 1 r1 (new_order 0 (0, r0)))\<lparr>updated_at := Some 1\<rparr>]\<rparr>)"
    by blast
  have a: "map due_date (orders ?d1) = [Some 259200000]"
    unfolding o using demo_due_date [OF r0] by (simp add: new_order_def)
  have b: "map due_date (orders (snd (serve later_runtime demo_request ?d1))) = [Some 259200001]"
    unfolding s2 using demo_due_date [OF r1] by (simp add: update_record_def)
  have c: "JSON_parse later_runtime = JSON_parse demo_runtime" "fetch later_runtime = fetch demo_runtime"
    by (simp_all add: later_runtime_def)
  from a b c show ?thesis by blast
qed

lemma dup_feed:
  "\<exists>r. read_feed now dup_parse (targetUrl k (sheetUrl demo_request)) [] = Inr ([r, r], 2)"
proof -
  have "\<not> blank_sheet_row [(L_service, js ''Logo'')]"
    by (simp add: blank_sheet_row_def or_else_def String_or_empty_def trim_def is_space_def js_def)
  then have "opensheet_record now [(L_service, js ''Logo'')] \<noteq> None"
    by (simp add: opensheet_record_None_iff)
  then obtain r where r: "opensheet_record now [(L_service, js ''Logo'')] = Some r"
    by auto
  have "read_feed now dup_parse (targetUrl k (sheetUrl demo_request)) [] = Inr ([r, r], 2)"
    by (simp add: read_feed_def demo_target read_opensheet_def dup_parse_def dup_rows_def
        List.map_filter_simps r)
  then show ?thesis by blast
qed

text \<open>
  C4 at its failing input. The sheet has two rows with the same service and no timestamp,
  and the store is empty. Both rows get the same identity and neither is in the map of
  existing orders, so both are in \<open>newRecords\<close>: the run inserts two orders with one
  identity.
\<close>

theorem identical_rows_are_inserted_twice:
  "\<exists>i. map sheet_row_id (orders (snd (serve dup_runtime demo_request empty_db))) = [Some i, Some i] \<and>
       fst (serve dup_runtime demo_request empty_db) =
         Success \<lparr>inserted = 2, updated = 0, purged = 0, totalRows = 2\<rparr>"
proof -
  from dup_feed [of 0 0] obtain r where
    f: "read_feed 0 dup_parse (targetUrl 0 (sheetUrl demo_request)) [] = Inr ([r, r], 2)"
    by blast
  have u: "clock dup_runtime = 0"
    by (simp add: dup_runtime_def)
  have s: "is_options demo_request = False" "has_env dup_runtime = True" "purge_flag demo_request = False"
    "JSON_parse dup_runtime = dup_parse" "int 0 = 0"
    "ok (fetch dup_runtime x) = True" "body (fetch dup_runtime x) = []" for x
    by (simp_all add: dup_runtime_def demo_request_def demo_body_def)
  have "serve dup_runtime demo_request empty_db =
         (Success \<lparr>inserted = 2, updated = 0, purged = 0, totalRows = 2\<rparr>,
          empty_db\<lparr>orders := [new_order 0 (0, r), new_order 0 (1, r)], next_uuid := 2\<rparr>)"
    unfolding serve_def Let_def u s f
    by (simp add: reconcile_empty_db enumerate_simps)
  then show ?thesis
    by (simp add: sheet_row_id_new_order)
qed

section \<open>Claim and completion\<close>

lemma orders_insert_assignment: "orders (insert_assignment now i u a d) = orders d"
  by (simp add: insert_assignment_def)

lemma orders_handleTakeOrder:
  "orders (snd (handleTakeOrder now userId orderId d)) =
     map (\<lambda>od. if oid od = orderId \<and> status od = js ''available''
                then od\<lparr>status := js ''taken'', taken_by := Some userId, taken_at := Some now,
                        updated_at := Some now\<rparr>
                else od) (orders d)"
  by (simp add: handleTakeOrder_def store_update_def update_where_def take_filter_def
      orders_insert_assignment)

lemma orders_handleCompleteOrder:
  "orders (snd (handleCompleteOrder now userId deliverableLink actualAmount feedback orderId d)) =
     map (\<lambda>od. if oid od = orderId \<and> taken_by od = Some userId
                then od\<lparr>status := js ''completed'', completed_at := Some now,
                        deliverable_link := (if deliverableLink = Some [] then None else deliverableLink),
                        actual_amount := actualAmount,
                        editor_feedback := (if feedback = Some [] then None else feedback),
                        updated_at := Some now\<rparr>
                else od) (orders d)"
  by (simp add: handleCompleteOrder_def store_update_def update_where_def complete_filter_def
      orders_insert_assignment)

text \<open>
  C9, as amended. A claim is one update under the filters on the key and on the status
  "available": it changes the orders that pass both and no other, so when the order is not
  available it changes no row and the persisted orders stay as they were. A completion is
  one update under the filters on the key and on the assignee being the caller, with no
  filter on the status: when the caller is not the assignee it changes no row and the
  persisted orders stay as they were.
\<close>

theorem claim_and_completion_are_conditional_updates:
  "orders (snd (handleTakeOrder now userId orderId d)) =
     map (\<lambda>od. if oid od = orderId \<and> status od = js ''available''
                then od\<lparr>status := js ''taken'', taken_by := Some userId, taken_at := Some now,
                        updated_at := Some now\<rparr>
                else od) (orders d) \<and>
   ((\<forall>od \<in> set (orders d). oid od = orderId \<longrightarrow> status od \<noteq> js ''available'') \<longrightarrow>
      fst (update_where now (take_filter orderId) upd d) = 0 \<and>
      orders (snd (handleTakeOrder now userId orderId d)) = orders d) \<and>
   orders (snd (handleCompleteOrder now userId deliverableLink actualAmount feedback orderId d)) =
     map (\<lambda>od. if oid od = orderId \<and> taken_by od = Some userId
                then od\<lparr>status := js ''completed'', completed_at := Some now,
                        deliverable_link := (if deliverableLink = Some [] then None else deliverableLink),
                        actual_amount := actualAmount,
                        editor_feedback := (if feedback = Some [] then None else feedback),
                        updated_at := Some now\<rparr>
                else od) (orders d) \<and>
   ((\<forall>od \<in> set (orders d). oid od = orderId \<longrightarrow> taken_by od \<noteq> Some userId) \<longrightarrow>
      fst (update_where now (complete_filter userId orderId) upd d) = 0 \<and>
      orders (snd (handleCompleteOrder now userId deliverableLink actualAmount feedback orderId d)) = orders d)"
proof (intro conjI impI)
  show "orders (snd (handleTakeOrder now userId orderId d)) =
     map (\<lambda>od. if oid od = orderId \<and> status od = js ''available''
                then od\<lparr>status := js ''taken'', taken_by := Some userId, taken_at := Some now,
                        updated_at := Some now\<rparr>
                else od) (orders d)"
    by (rule orders_handleTakeOrder)
next
  assume a: "\<forall>od \<in> set (orders d). oid od = orderId \<longrightarrow> status od \<noteq> js ''available''"
  then show "fst (update_where now (take_filter orderId) upd d) = 0"
    by (auto simp: update_where_def take_filter_def filter_empty_conv)
  from a show "orders (snd (handleTakeOrder now userId orderId d)) = orders d"
    unfolding orders_handleTakeOrder by (intro map_idI) auto
next
  show "orders (snd (handleCompleteOrder now userId deliverableLink actualAmount feedback orderId d)) =
     map (\<lambda>od. if oid od = orderId \<and> taken_by od = Some userId
                then od\<lparr>status := js ''completed'', completed_at := Some now,
                        deliverable_link := (if deliverableLink = Some [] then None else deliverableLink),
                        actual_amount := actualAmount,
                        editor_feedback := (if feedback = Some [] then None else feedback),
                        updated_at := Some now\<rparr>
                else od) (orders d)"
    by (rule orders_handleCompleteOrder)
next
  assume a: "\<forall>od \<in> set (orders d). oid od = orderId \<longrightarrow> taken_by od \<noteq> Some userId"
  then show "fst (update_where now (complete_filter userId orderId) upd d) = 0"
    by (auto simp: update_where_def complete_filter_def filter_empty_conv)
  from a show "orders (snd (handleCompleteOrder now userId deliverableLink actualAmount feedback orderId d)) = orders d"
    unfolding orders_handleCompleteOrder by (intro map_idI) auto
qed

theorem claim_and_completion_are_conditional_updates_witness:
  "orders taken_db = [taken_order] \<and> oid taken_order = 7 \<and>
   status taken_order = js ''taken'' \<and> js ''taken'' \<noteq> js ''available'' \<and>
   taken_by taken_order = Some 42 \<and>
   orders (snd (handleTakeOrder 9 99 7 taken_db)) = orders taken_db \<and>
   orders (snd (handleCompleteOrder 9 99 None None None 7 taken_db)) = orders taken_db"
proof -
  have a: "\<forall>od \<in> set (orders taken_db). oid od = 7 \<longrightarrow> status od \<noteq> js ''available''"
    by (simp add: taken_db_def taken_order_def js_def)
  have b: "\<forall>od \<in> set (orders taken_db). oid od = 7 \<longrightarrow> taken_by od \<noteq> Some 99"
    by (simp add: taken_db_def taken_order_def)
  note t = claim_and_completion_are_conditional_updates [of 9 99 7 taken_db _ None None None]
  from t a have "orders (snd (handleTakeOrder 9 99 7 taken_db)) = orders taken_db"
    by blast
  moreover from t b have "orders (snd (handleCompleteOrder 9 99 None None None 7 taken_db)) = orders taken_db"
    by blast
  moreover have "js ''taken'' \<noteq> js ''available''"
    by (simp add: js_def)
  ultimately show ?thesis
    by (simp add: taken_db_def taken_order_def)
qed

text \<open>
  The claim as it stands fails for the completion: the order is completed, not taken, its
  assignee completes it again, and the update goes through, with a new completion time and
  a new deliverable.
\<close>

theorem completion_of_completed_order_counterexample:
  "orders completed_db = [completed_order] \<and>
   oid completed_order = 7 \<and>
   status completed_order = js ''completed'' \<and>
   status completed_order \<noteq> js ''taken'' \<and>
   completed_at completed_order = Some 6 \<and>
   deliverable_link completed_order = Some (js ''https://files/1'') \<and>
   fst (handleCompleteOrder 9 42 (Some (js ''https://files/2'')) None None 7 completed_db) = CompletedOk \<and>
   map completed_at
     (orders (snd (handleCompleteOrder 9 42 (Some (js ''https://files/2'')) None None 7 completed_db))) =
     [Some 9] \<and>
   map deliverable_link
     (orders (snd (handleCompleteOrder 9 42 (Some (js ''https://files/2'')) None None 7 completed_db))) =
     [Some (js ''https://files/2'')] \<and>
   length (assignments (snd (handleCompleteOrder 9 42 (Some (js ''https://files/2'')) None None 7 completed_db))) = 1"
proof -
  have ne: "js ''completed'' \<noteq> js ''taken''" "js ''https://files/2'' \<noteq> []"
    by (simp_all add: js_def)
  have f: "fst (handleCompleteOrder 9 42 (Some (js ''https://files/2'')) None None 7 completed_db) = CompletedOk"
    by (simp add: handleCompleteOrder_def store_update_def)
  have l: "length (assignments (snd (handleCompleteOrder 9 42 (Some (js ''https://files/2'')) None None 7 completed_db))) = 1"
    by (simp add: handleCompleteOrder_def store_update_def insert_assignment_def update_where_def
        completed_db_def)
  show ?thesis
    unfolding orders_handleCompleteOrder
    using ne f l by (simp add: completed_db_def completed_order_def taken_order_def)
qed

text \<open>
  What the claiming caller is told when the order is not available. The update selects no
  row, which the store answers without an error, so the branch on the error code is not
  taken: the handler writes its audit entry and reports success.
\<close>

lemma take_of_taken_order_reports_success:
  "fst (handleTakeOrder 9 99 7 taken_db) = TakenOk \<and>
   length (assignments (snd (handleTakeOrder 9 99 7 taken_db))) = 1"
  by (simp add: handleTakeOrder_def store_update_def insert_assignment_def update_where_def
      taken_db_def)

section \<open>Errors of the feed\<close>

lemma indexOf_None_iff: "indexOf s p = None \<longleftrightarrow> \<not> includes_str s p"
  by (induction s) auto

lemma lastIndexOf_None_iff: "lastIndexOf s p = None \<longleftrightarrow> \<not> includes_str s p"
  by (induction s) (auto split: option.splits)

lemma indexOf_Some:
  "indexOf s p = Some i \<Longrightarrow>
   i \<le> length s \<and> starts_with (drop i s) p \<and> (\<forall>j < i. \<not> starts_with (drop j s) p)"
proof (induction s arbitrary: i)
  case Nil
  then show ?case by (auto simp: starts_with_def split: if_splits)
next
  case (Cons x s)
  show ?case
  proof (cases "starts_with (x # s) p")
    case True
    with Cons.prems show ?thesis by simp
  next
    case False
    with Cons.prems obtain k where k: "indexOf s p = Some k" "i = Suc k"
      by auto
    from Cons.IH [OF k(1)] False k(2) show ?thesis
      by (auto simp: less_Suc_eq_0_disj)
  qed
qed

lemma lastIndexOf_Some:
  "lastIndexOf s p = Some i \<Longrightarrow>
   i \<le> length s \<and> starts_with (drop i s) p \<and>
   (\<forall>j. i < j \<and> j \<le> length s \<longrightarrow> \<not> starts_with (drop j s) p)"
proof (induction s arbitrary: i)
  case Nil
  then show ?case by (auto simp: starts_with_def split: if_splits)
next
  case (Cons x s)
  show ?case
  proof (cases "lastIndexOf s p")
    case (Some k)
    with Cons.prems have i: "i = Suc k" by simp
    from Cons.IH [OF Some] have
      "k \<le> length s" "starts_with (drop k s) p"
      "\<forall>j. k < j \<and> j \<le> length s \<longrightarrow> \<not> starts_with (drop j s) p"
      by blast+
    then show ?thesis
      unfolding i by (auto simp: Suc_less_eq2)
  next
    case None
    with Cons.prems have i: "i = 0" and sw: "starts_with (x # s) p"
      by (auto split: if_splits)
    have "\<not> starts_with (drop j (x # s)) p" if "0 < j" "j \<le> length (x # s)" for j
    proof
      assume a: "starts_with (drop j (x # s)) p"
      from that obtain j' where j': "j = Suc j'" by (cases j) auto
      with a have "starts_with (drop j' s) p" by simp
      then obtain post where "drop j' s = p @ post" by (auto simp: starts_with_iff)
      then have "s = take j' s @ p @ post" by (metis append_take_drop_id)
      then have "includes_str s p" unfolding includes_str_iff by blast
      with None show False by (simp add: lastIndexOf_None_iff)
    qed
    with i sw show ?thesis by auto
  qed
qed

lemma parseGvizJsonp_Inl_iff:
  "(\<exists>e. parseGvizJsonp P input = Inl e) \<longleftrightarrow>
     \<not> includes_str input (js ''setResponse('') \<or> \<not> includes_str input (js '')'') \<or>
     (\<exists>start fin. indexOf input (js ''setResponse('') = Some start \<and>
        lastIndexOf input (js '')'') = Some fin \<and>
        P (substring input (start + 12) fin) = None)"
proof -
  have l: "length (js ''setResponse('') = 12"
    by (simp add: js_def)
  have a: "\<not> includes_str input (js ''setResponse('') \<longleftrightarrow> indexOf input (js ''setResponse('') = None"
    by (simp add: indexOf_None_iff)
  have b: "\<not> includes_str input (js '')'') \<longleftrightarrow> lastIndexOf input (js '')'') = None"
    by (simp add: lastIndexOf_None_iff)
  show ?thesis
    unfolding a b parseGvizJsonp_def l
    by (auto split: option.splits)
qed

lemma parseGvizJsonp_MalformedFeed: "parseGvizJsonp P input = Inl e \<Longrightarrow> MalformedFeed e"
  by (auto simp: parseGvizJsonp_def MalformedFeed_def split: option.splits)

lemma colIndex_None_iff: "colIndex cs r = None \<longleftrightarrow> r \<notin> set (map label cs)"
proof -
  have "colIndex cs r = None \<longleftrightarrow> r \<notin> fst ` set (rev (zip (map label cs) [0 ..< length cs]))"
    unfolding colIndex_def by (rule map_of_eq_None_iff)
  also have "fst ` set (rev (zip (map label cs) [0 ..< length cs])) = set (map label cs)"
    by (simp add: image_comp [symmetric] del: set_map) (metis length_map length_upt map_fst_zip minus_nat.diff_0 set_map)
  finally show ?thesis .
qed

lemma read_opensheet_no_MissingColumn: "read_opensheet now P text \<noteq> Inl (MissingColumn l)"
  by (auto simp: read_opensheet_def split: option.splits json.splits)

lemma read_gviz_MissingColumn_iff:
  "read_gviz now P text = Inl (MissingColumn l) \<longleftrightarrow>
     (\<exists>g. parseGvizJsonp P text = Inr (JTable g) \<and>
          List.find (\<lambda>r. r \<notin> set (map label (cols g))) required = Some l)"
proof -
  have "parseGvizJsonp P text \<noteq> Inl (MissingColumn l)"
    by (auto simp: parseGvizJsonp_def split: option.splits)
  then show ?thesis
    unfolding read_gviz_def colIndex_None_iff
    by (auto split: sum.splits json.splits option.splits)
qed

lemma to_record_fields:
  "to_record now row name service desc budgetRaw timeline timestamp = Some r \<Longrightarrow>
   rec_client_name r = (if name = [] then js ''Client'' else name) \<and>
   rec_price r = parseBudgetToNumber (Some budgetRaw) \<and>
   rec_due_date r = mapTimelineToDueDate now (Some timeline)"
  by (auto simp: to_record_def Let_def split: if_splits)

lemma String_or_empty_None: "String_or_empty (or_else None None) = []"
  by (simp add: String_or_empty_def or_else_def trim_def)

lemma opensheet_defaults:
  assumes "opensheet_record now row = Some r"
  shows "(map_of row L_name = None \<and> map_of row (js ''Full Name'') = None \<longrightarrow> rec_client_name r = js ''Client'') \<and>
         (map_of row L_budget = None \<and> map_of row (js ''Budget'') = None \<longrightarrow> rec_price r = 0) \<and>
         (map_of row L_timeline = None \<and> map_of row (js ''Timeline'') = None \<longrightarrow> rec_due_date r = None)"
proof -
  note f = to_record_fields [OF assms [unfolded opensheet_record_def Let_def]]
  have p: "parseBudgetToNumber (Some []) = 0"
    by (simp add: parseBudgetToNumber_def)
  have t: "mapTimelineToDueDate now (Some []) = None"
    by (simp add: mapTimelineToDueDate_def)
  from f show ?thesis
    by (auto simp: String_or_empty_None p t)
qed

text \<open>
  C8. The parser of the wrapped variant fails exactly when the text does not hold the opening
  "setResponse(", or does not hold a closing parenthesis, or the text between the first
  opening and the last closing parenthesis does not decode; and each of these failures is a
  malformed feed. \<open>indexOf\<close> finds the first place where its text starts and
  \<open>lastIndexOf\<close> the last. The check of the required columns belongs to the wrapped
  branch alone: the array branch never reports a missing column, and the wrapped branch
  reports the first required label that no column of a decoded table carries. On the array
  branch a row without a name is a "Client", without a budget it has price 0, and without a
  timeline it has no due date.
\<close>

theorem wrapped_feed_errors:
  "((\<exists>e. parseGvizJsonp P input = Inl e) \<longleftrightarrow>
      \<not> (\<exists>pre post. input = pre @ js ''setResponse('' @ post) \<or>
      \<not> (\<exists>pre post. input = pre @ js '')'' @ post) \<or>
      (\<exists>start fin. indexOf input (js ''setResponse('') = Some start \<and>
         lastIndexOf input (js '')'') = Some fin \<and>
         P (substring input (start + 12) fin) = None)) \<and>
   (parseGvizJsonp P input = Inl e \<longrightarrow> MalformedFeed e) \<and>
   (indexOf input p = Some i \<longrightarrow>
      starts_with (drop i input) p \<and> (\<forall>j < i. \<not> starts_with (drop j input) p)) \<and>
   (lastIndexOf input p = Some i \<longrightarrow>
      starts_with (drop i input) p \<and>
      (\<forall>j. i < j \<and> j \<le> length input \<longrightarrow> \<not> starts_with (drop j input) p)) \<and>
   read_opensheet now P text \<noteq> Inl (MissingColumn l) \<and>
   (read_gviz now P text = Inl (MissingColumn l) \<longleftrightarrow>
      (\<exists>g. parseGvizJsonp P text = Inr (JTable g) \<and>
           List.find (\<lambda>r. r \<notin> set (map label (cols g))) required = Some l)) \<and>
   (opensheet_record now row = Some r \<longrightarrow>
      (map_of row L_name = None \<and> map_of row (js ''Full Name'') = None \<longrightarrow>
         rec_client_name r = js ''Client'') \<and>
      (map_of row L_budget = None \<and> map_of row (js ''Budget'') = None \<longrightarrow> rec_price r = 0) \<and>
      (map_of row L_timeline = None \<and> map_of row (js ''Timeline'') = None \<longrightarrow>
         rec_due_date r = None))"
proof (intro conjI impI)
  show "(\<exists>e. parseGvizJsonp P input = Inl e) \<longleftrightarrow>
      \<not> (\<exists>pre post. input = pre @ js ''setResponse('' @ post) \<or>
      \<not> (\<exists>pre post. input = pre @ js '')'' @ post) \<or>
      (\<exists>start fin. indexOf input (js ''setResponse('') = Some start \<and>
         lastIndexOf input (js '')'') = Some fin \<and>
         P (substring input (start + 12) fin) = None)"
    unfolding includes_str_iff [symmetric] by (rule parseGvizJsonp_Inl_iff)
next
  assume "parseGvizJsonp P input = Inl e"
  then show "MalformedFeed e" by (rule parseGvizJsonp_MalformedFeed)
next
  assume a: "indexOf input p = Some i"
  from indexOf_Some [OF a] show "starts_with (drop i input) p" by blast
  from indexOf_Some [OF a] show "\<forall>j < i. \<not> starts_with (drop j input) p" by blast
next
  assume a: "lastIndexOf input p = Some i"
  from lastIndexOf_Some [OF a] show "starts_with (drop i input) p" by blast
  from lastIndexOf_Some [OF a]
  show "\<forall>j. i < j \<and> j \<le> length input \<longrightarrow> \<not> starts_with (drop j input) p" by blast
next
  show "read_opensheet now P text \<noteq> Inl (MissingColumn l)"
    by (rule read_opensheet_no_MissingColumn)
next
  show "read_gviz now P text = Inl (MissingColumn l) \<longleftrightarrow>
      (\<exists>g. parseGvizJsonp P text = Inr (JTable g) \<and>
           List.find (\<lambda>r. r \<notin> set (map label (cols g))) required = Some l)"
    by (rule read_gviz_MissingColumn_iff)
next
  assume a: "opensheet_record now row = Some r"
  {
    assume "map_of row L_name = None \<and> map_of row (js ''Full Name'') = None"
    with opensheet_defaults [OF a] show "rec_client_name r = js ''Client''" by blast
  }
  {
    assume "map_of row L_budget = None \<and> map_of row (js ''Budget'') = None"
    with opensheet_defaults [OF a] show "rec_price r = 0" by blast
  }
  {
    assume "map_of row L_timeline = None \<and> map_of row (js ''Timeline'') = None"
    with opensheet_defaults [OF a] show "rec_due_date r = None" by blast
  }
qed

theorem wrapped_feed_errors_witness:
  "parseGvizJsonp bare_parse (js ''not a feed'') = Inl InvalidGvizJsonp \<and>
   MalformedFeed InvalidGvizJsonp \<and>
   indexOf (js ''setResponse({});'') (js ''setResponse('') = Some 0 \<and>
   lastIndexOf (js ''setResponse({});'') (js '')'') = Some 14 \<and>
   starts_with (drop 14 (js ''setResponse({});'')) (js '')'') \<and>
   parseGvizJsonp bare_parse (js ''setResponse({});'') = Inr (JTable bare_table) \<and>
   read_gviz 0 bare_parse (js ''setResponse({});'') = Inl (MissingColumn L_service) \<and>
   (\<exists>r. opensheet_record 0 [(L_service, js ''Logo'')] = Some r \<and>
        rec_client_name r = js ''Client'' \<and> rec_price r = 0 \<and> rec_due_date r = None)"
proof -
  have i0: "indexOf (js ''not a feed'') (js ''setResponse('') = None"
    by (simp add: js_def starts_with_def)
  have p0: "parseGvizJsonp bare_parse (js ''not a feed'') = Inl InvalidGvizJsonp"
    by (simp add: parseGvizJsonp_def i0)
  have i1: "indexOf (js ''setResponse({});'') (js ''setResponse('') = Some 0"
    by (simp add: js_def starts_with_def)
  have i2: "lastIndexOf (js ''setResponse({});'') (js '')'') = Some 14"
    by (simp add: js_def starts_with_def)
  have p1: "parseGvizJsonp bare_parse (js ''setResponse({});'') = Inr (JTable bare_table)"
    by (simp add: parseGvizJsonp_def i1 i2 bare_parse_def)
  have fnd: "List.find (\<lambda>r. r \<notin> set (map label (cols bare_table))) required = Some L_service"
    by (simp add: bare_table_def required_def)
  have m: "map_of [(L_service, js ''Logo'')] L_name = None \<and>
      map_of [(L_service, js ''Logo'')] (js ''Full Name'') = None"
    "map_of [(L_service, js ''Logo'')] L_budget = None \<and>
      map_of [(L_service, js ''Logo'')] (js ''Budget'') = None"
    "map_of [(L_service, js ''Logo'')] L_timeline = None \<and>
      map_of [(L_service, js ''Logo'')] (js ''Timeline'') = None"
    by (simp_all add: L_service_def L_name_def L_budget_def L_timeline_def js_def)
  have "\<not> blank_sheet_row [(L_service, js ''Logo'')]"
    by (simp add: blank_sheet_row_def or_else_def String_or_empty_def trim_def is_space_def js_def)
  then have "opensheet_record 0 [(L_service, js ''Logo'')] \<noteq> None"
    by (simp add: opensheet_record_None_iff)
  then obtain r where r: "opensheet_record 0 [(L_service, js ''Logo'')] = Some r"
    by auto
  note t = wrapped_feed_errors [of bare_parse "js ''not a feed''" InvalidGvizJsonp _ _ 0
      "js ''setResponse({});''" L_service "[(L_service, js ''Logo'')]" r]
  note u = wrapped_feed_errors [of _ "js ''setResponse({});''" _ "js '')''" 14]
  from t p0 have a: "MalformedFeed InvalidGvizJsonp" by blast
  from u i2 have b: "starts_with (drop 14 (js ''setResponse({});'')) (js '')'')" by blast
  from t p1 fnd have c: "read_gviz 0 bare_parse (js ''setResponse({});'') = Inl (MissingColumn L_service)"
    by blast
  from t r m have d: "rec_client_name r = js ''Client'' \<and> rec_price r = 0 \<and> rec_due_date r = None"
    by blast
  from p0 a i1 i2 b p1 c r d show ?thesis by blast
qed

section \<open>The matches of the budget expression\<close>
















section \<open>The budget examples\<close>























section \<open>The form of a matched number\<close>













end
